theory Spec2Isabelle
  imports Main "HOL-Library.Multiset"
begin

section \<open>The override command line (Cli.ts)\<close>

text \<open>
  The theory embeds \<^verbatim>\<open>packages/react-native-platform-override/src/Cli.ts\<close>.
  JavaScript exceptions and \<^verbatim>\<open>process.exit\<close> are values of a sum type, the
  terminal is a list of output events, and every mutable object the commands share
  (the spinner, the manifest on disk, the override files, the cross-process lock) is a
  field of one state record that each function takes and returns.
\<close>

subsection \<open>Failures, terminal output and state\<close>

text \<open>
  \<open>Throw msg\<close> is a thrown \<^verbatim>\<open>Error(msg)\<close>, which a \<^verbatim>\<open>catch\<close> sees;
  \<open>Exit n\<close> is \<^verbatim>\<open>process.exit(n)\<close>, which ends the process and which no
  \<^verbatim>\<open>catch\<close> sees.
\<close>

datatype failure = Throw string | Exit int

type_synonym 'a result = "failure + 'a"

datatype chalk = plain | red | yellow | greenBright | yellowBright

text \<open>
  One event per call that writes to the terminal: the three console methods with the
  colour chalk gave the text, and the two ora calls that replace the spinner by a
  final line (\<^verbatim>\<open>succeed\<close>, \<^verbatim>\<open>fail\<close>) holding the spinner's text.
\<close>

datatype printed =
    ConsoleLog chalk string
  | ConsoleWarn chalk string
  | ConsoleError chalk string
  | OraSucceed string
  | OraFail string

record Ora =
  spinnerText :: string
  isSpinning :: bool

text \<open>
  Modelled from the spec: the declaration of \<^verbatim>\<open>ValidationError\<close> is in
  ValidationStrategy, not in Cli.ts; section 3 of the specification gives its two
  attributes. The \<^verbatim>\<open>type\<close> is kept as the string JavaScript compares with
  \<^verbatim>\<open>===\<close>, so that a value outside the taxonomy is expressible.
\<close>

record ValidationError =
  errorType :: string
  overrideName :: string

text \<open>
  Modelled from the spec: the declaration of \<^verbatim>\<open>UpgradeResult\<close> is in
  UpgradeStrategy, not in Cli.ts; section 3 gives the override name and the conflict
  flag.
\<close>

record UpgradeResult =
  resultName :: string
  hasConflicts :: bool

text \<open>
  Modelled from the spec: the variants of an override's type, as section 3 lists them.
\<close>

datatype OverrideType = platform | copy | derived | patch | directoryCopy

text \<open>
  Modelled from the spec: an entry of the manifest with the attributes of section 3.
\<close>

record OverrideEntry =
  entryName :: string
  entryType :: OverrideType
  baseFile :: "string option"
  baseVersion :: "string option"
  issue :: "string option"
  comment :: "string option"

text \<open>A call of one of the three operations of the lock, with the number of the
  calling process.\<close>

datatype lockCall = TryLock nat | Lock nat | Unlock nat

text \<open>The state: what has been printed, \<^verbatim>\<open>process.exitCode\<close>, the spinner, the
  manifest and the override files on disk, the holder of the lock and the lock calls made
  so far.\<close>

record world =
  stdio :: "printed list"
  exitCode :: "int option"
  spinner :: Ora
  manifest :: "OverrideEntry list"
  files :: "string \<rightharpoonup> string"
  lockHolder :: "nat option"
  lockCalls :: "lockCall list"

definition console_log :: "chalk \<Rightarrow> string \<Rightarrow> world \<Rightarrow> world" where
  "console_log c s w = w\<lparr>stdio := stdio w @ [ConsoleLog c s]\<rparr>"

definition console_warn :: "chalk \<Rightarrow> string \<Rightarrow> world \<Rightarrow> world" where
  "console_warn c s w = w\<lparr>stdio := stdio w @ [ConsoleWarn c s]\<rparr>"

definition console_error :: "chalk \<Rightarrow> string \<Rightarrow> world \<Rightarrow> world" where
  "console_error c s w = w\<lparr>stdio := stdio w @ [ConsoleError c s]\<rparr>"

text \<open>\<^verbatim>\<open>ora(text).start()\<close>, \<^verbatim>\<open>spinner.succeed()\<close>, \<^verbatim>\<open>spinner.fail()\<close>,
  \<^verbatim>\<open>spinner.stop()\<close> and the assignment to \<^verbatim>\<open>spinner.text\<close>.\<close>

definition ora_start :: "string \<Rightarrow> world \<Rightarrow> world" where
  "ora_start t w = w\<lparr>spinner := \<lparr>spinnerText = t, isSpinning = True\<rparr>\<rparr>"

definition ora_succeed :: "world \<Rightarrow> world" where
  "ora_succeed w =
     w\<lparr>stdio := stdio w @ [OraSucceed (spinnerText (spinner w))],
       spinner := (spinner w)\<lparr>isSpinning := False\<rparr>\<rparr>"

definition ora_fail :: "world \<Rightarrow> world" where
  "ora_fail w =
     w\<lparr>stdio := stdio w @ [OraFail (spinnerText (spinner w))],
       spinner := (spinner w)\<lparr>isSpinning := False\<rparr>\<rparr>"

definition ora_stop :: "world \<Rightarrow> world" where
  "ora_stop w = w\<lparr>spinner := (spinner w)\<lparr>isSpinning := False\<rparr>\<rparr>"

definition ora_text :: "string \<Rightarrow> world \<Rightarrow> world" where
  "ora_text t w = w\<lparr>spinner := (spinner w)\<lparr>spinnerText := t\<rparr>\<rparr>"

subsection \<open>printErrorType and printValidationErrors\<close>

text \<open>
  \<^verbatim>\<open>Array.prototype.sort\<close> with the comparator
  \<^verbatim>\<open>(a, b) => a.overrideName.localeCompare(b.overrideName, 'en')\<close>. The sort is
  stable: an element goes before the first one it does not compare greater than, and
  the elements are inserted from the last to the first. \<^verbatim>\<open>localeCompare\<close>
  belongs to the JavaScript runtime and is a parameter.
\<close>

fun insertError ::
  "(string \<Rightarrow> string \<Rightarrow> int) \<Rightarrow> ValidationError \<Rightarrow> ValidationError list \<Rightarrow> ValidationError list"
where
  "insertError localeCompare a [] = [a]"
| "insertError localeCompare a (b # bs) =
     (if localeCompare (overrideName a) (overrideName b) \<le> 0 then a # b # bs
      else b # insertError localeCompare a bs)"

definition sortErrors ::
  "(string \<Rightarrow> string \<Rightarrow> int) \<Rightarrow> ValidationError list \<Rightarrow> ValidationError list"
where
  "sortErrors localeCompare errs = foldr (insertError localeCompare) errs []"

definition bullet :: "ValidationError \<Rightarrow> printed" where
  "bullet err = ConsoleError plain ('' - '' @ overrideName err)"

text \<open>
  \<^verbatim>\<open>_.remove(errors, pred)\<close> takes the matching elements out of \<^verbatim>\<open>errors\<close>
  and returns them; the function returns the array that is left together with the
  new state.
\<close>

definition printErrorType ::
  "(string \<Rightarrow> string \<Rightarrow> int) \<Rightarrow> string \<Rightarrow> ValidationError list \<Rightarrow> string \<Rightarrow> world
     \<Rightarrow> ValidationError list \<times> world"
where
  "printErrorType localeCompare type errors message w =
     (let filteredErrors =
            sortErrors localeCompare (filter (\<lambda>err. errorType err = type) errors);
          errors' = filter (\<lambda>err. errorType err \<noteq> type) errors
      in if length filteredErrors > 0
         then (errors',
               console_error plain ''''
                 (w\<lparr>stdio := stdio w @ [ConsoleError red message] @ map bullet filteredErrors\<rparr>))
         else (errors', w))"

definition msgMissingFromManifest :: "string \<Rightarrow> string" where
  "msgMissingFromManifest npmName =
     ''Found override files that aren't listed in the manifest. Overrides can be added to the manifest by using 'npx ''
       @ npmName @ '' add <override>':''"

definition msgOverrideNotFound :: "string \<Rightarrow> string" where
  "msgOverrideNotFound npmName =
     ''Found overrides in the manifest that don't exist on disk. Remove existing overrides using 'npx ''
       @ npmName @ '' remove <override>':''"

definition msgBaseNotFound :: "string \<Rightarrow> string" where
  "msgBaseNotFound npmName =
     ''Found overrides whose base files do not exist. Remove existing overrides using 'npx ''
       @ npmName @ '' remove <override>':''"

definition msgOutOfDate :: "string \<Rightarrow> string" where
  "msgOutOfDate npmName =
     ''Found overrides whose original files have changed. Upgrade overrides using 'npx ''
       @ npmName @ '' upgrade:''"

definition msgOverrideDifferentFromBase :: string where
  "msgOverrideDifferentFromBase =
     ''The following overrides should be an exact copy of their base files. Ensure overrides are up to date or revert changes:''"

definition msgOverrideSameAsBase :: string where
  "msgOverrideSameAsBase =
     ''The following overrides are identical to their base files. Please remove them or set their type to \"copy\":''"

definition msgExpectedFile :: string where
  "msgExpectedFile =
     ''The following overrides should operate on files, but list directories:''"

definition msgExpectedDirectory :: string where
  "msgExpectedDirectory =
     ''The following overrides should operate on directories, but listed files:''"

text \<open>\<^verbatim>\<open>'Unprinted errors present:\n' + errors\<close>: an array is joined with commas and
  an object prints as \<^verbatim>\<open>[object Object]\<close>.\<close>

fun joinObjects :: "ValidationError list \<Rightarrow> string" where
  "joinObjects [] = ''''"
| "joinObjects [e] = ''[object Object]''"
| "joinObjects (e # es) = ''[object Object],'' @ joinObjects es"

definition printValidationErrors ::
  "(string \<Rightarrow> string \<Rightarrow> int) \<Rightarrow> string \<Rightarrow> ValidationError list \<Rightarrow> world
     \<Rightarrow> unit result \<times> world"
where
  "printValidationErrors localeCompare npmName validationErrors w0 =
     (if length validationErrors = 0 then (Inr (), w0)
      else
        let errors = validationErrors;
            w = console_error plain '''' w0;
            (errors, w) = printErrorType localeCompare ''missingFromManifest'' errors
                            (msgMissingFromManifest npmName) w;
            (errors, w) = printErrorType localeCompare ''overrideNotFound'' errors
                            (msgOverrideNotFound npmName) w;
            (errors, w) = printErrorType localeCompare ''baseNotFound'' errors
                            (msgBaseNotFound npmName) w;
            (errors, w) = printErrorType localeCompare ''outOfDate'' errors
                            (msgOutOfDate npmName) w;
            (errors, w) = printErrorType localeCompare ''overrideDifferentFromBase'' errors
                            msgOverrideDifferentFromBase w;
            (errors, w) = printErrorType localeCompare ''overrideSameAsBase'' errors
                            msgOverrideSameAsBase w;
            (errors, w) = printErrorType localeCompare ''expectedFile'' errors
                            msgExpectedFile w;
            (errors, w) = printErrorType localeCompare ''expectedDirectory'' errors
                            msgExpectedDirectory w
        in if length errors \<noteq> 0
           then (Inl (Throw (''Unprinted errors present:'' @ [CHR 0x0A] @ joinObjects errors)), w)
           else (Inr (), w))"

subsection \<open>What printValidationErrors prints, in closed form\<close>

text \<open>The eight kinds of the taxonomy, and the eight calls of printErrorType as a table
  of kind and message, in the order of the calls.\<close>

definition errorKinds :: "string list" where
  "errorKinds =
     [''missingFromManifest'', ''overrideNotFound'', ''baseNotFound'', ''outOfDate'',
      ''overrideDifferentFromBase'', ''overrideSameAsBase'', ''expectedFile'',
      ''expectedDirectory'']"

definition errorGroups :: "string \<Rightarrow> (string \<times> string) list" where
  "errorGroups npmName =
     [(''missingFromManifest'', msgMissingFromManifest npmName),
      (''overrideNotFound'', msgOverrideNotFound npmName),
      (''baseNotFound'', msgBaseNotFound npmName),
      (''outOfDate'', msgOutOfDate npmName),
      (''overrideDifferentFromBase'', msgOverrideDifferentFromBase),
      (''overrideSameAsBase'', msgOverrideSameAsBase),
      (''expectedFile'', msgExpectedFile),
      (''expectedDirectory'', msgExpectedDirectory)]"

fun printAll ::
  "(string \<Rightarrow> string \<Rightarrow> int) \<Rightarrow> (string \<times> string) list \<Rightarrow> ValidationError list \<Rightarrow> world
     \<Rightarrow> ValidationError list \<times> world"
where
  "printAll localeCompare [] errors w = (errors, w)"
| "printAll localeCompare ((t, m) # gs) errors w =
     (case printErrorType localeCompare t errors m w of
        (errors', w') \<Rightarrow> printAll localeCompare gs errors' w')"

text \<open>The lines of one group: the message, one line per error of the kind in sorted
  order, and an empty line; nothing when no error has the kind.\<close>

definition groupLines ::
  "(string \<Rightarrow> string \<Rightarrow> int) \<Rightarrow> string \<Rightarrow> string \<Rightarrow> ValidationError list \<Rightarrow> printed list"
where
  "groupLines localeCompare type message errs =
     (let es = sortErrors localeCompare (filter (\<lambda>err. errorType err = type) errs)
      in if es = [] then []
         else ConsoleError red message # map bullet es @ [ConsoleError plain ''''])"

definition unprinted :: "ValidationError list \<Rightarrow> ValidationError list" where
  "unprinted errs = filter (\<lambda>err. errorType err \<notin> set errorKinds) errs"

fun isBullet :: "printed \<Rightarrow> bool" where
  "isBullet (ConsoleError plain s) = (take 3 s = '' - '')"
| "isBullet _ = False"

text \<open>What a function wrote to the terminal: the events after those of the state it
  started from.\<close>

definition newOutput :: "world \<Rightarrow> world \<Rightarrow> printed list" where
  "newOutput w w' = drop (length (stdio w)) (stdio w')"

subsection \<open>Comparators\<close>

text \<open>
  Two comparators a JavaScript runtime may give for \<^verbatim>\<open>localeCompare\<close>, over
  strings as UTF-8 bytes. \<open>compareBytes\<close> orders strings byte by byte.
  \<open>canonicalCompare\<close> does so after replacing the precomposed letter U+00E9
  (bytes C3 A9) by its canonical decomposition U+0065 U+0301 (bytes 65 CC 81):
  ECMA-262 requires \<^verbatim>\<open>localeCompare\<close> to return 0 on strings that are
  canonically equivalent in Unicode, and these two spellings are.
\<close>

fun compareBytes :: "string \<Rightarrow> string \<Rightarrow> int" where
  "compareBytes [] [] = 0"
| "compareBytes [] (b # bs) = - 1"
| "compareBytes (a # as) [] = 1"
| "compareBytes (a # as) (b # bs) =
     (if a = b then compareBytes as bs
      else if (of_char a :: nat) < of_char b then - 1 else 1)"

fun decompose :: "string \<Rightarrow> string" where
  "decompose (a # b # s) =
     (if a = CHR 0xC3 \<and> b = CHR 0xA9 then CHR 0x65 # CHR 0xCC # CHR 0x81 # decompose s
      else a # decompose (b # s))"
| "decompose s = s"

definition canonicalCompare :: "string \<Rightarrow> string \<Rightarrow> int" where
  "canonicalCompare a b = compareBytes (decompose a) (decompose b)"

subsection \<open>What the commands call outside Cli.ts\<close>

text \<open>
  Functions of the Node runtime and of other modules, taken as parameters: each field is
  what the call returns. \<^verbatim>\<open>getNpmPackage\<close> has already succeeded when doMain
  starts a command, so only the package name is kept.
\<close>

record Opts =
  manifestPath :: "string option"
  reactNativeVersion :: "string option"

record UpgradeOpts = Opts +
  allowConflicts :: bool

record OverrideDetails =
  detailsType :: OverrideType
  detailsBaseFile :: "string option"
  detailsIssue :: "string option"
  detailsComment :: "string option"

record externals =
  getNpmPackageName :: string
  stringLocaleCompare :: "string \<Rightarrow> string \<Rightarrow> int"
  findManifest :: "string \<Rightarrow> string result"
  pathDirname :: "string \<Rightarrow> string"
  pathResolve :: "string \<Rightarrow> string"
  pathRelative :: "string \<Rightarrow> string \<Rightarrow> string"
  promptForOverrideDetails :: "OverrideDetails result"
  overrideFromDetails :: "string \<Rightarrow> OverrideDetails \<Rightarrow> OverrideEntry result"
  apiValidateManifest :: "Opts \<Rightarrow> ValidationError list result"
  yargsFail :: "string \<Rightarrow> world \<Rightarrow> (int \<times> world) option"
  installedVersion :: string
  upstreamContent :: "string \<Rightarrow> string \<Rightarrow> string option"
  threeWayMerge :: "string \<Rightarrow> string \<Rightarrow> string \<Rightarrow> string \<times> bool"

subsection \<open>spinnerGuard\<close>

text \<open>
  The wrapped operation is a function on the state: it shares the spinner with its
  caller. A thrown error is caught, the spinner is failed if it is still spinning, and
  the error is thrown again. \<^verbatim>\<open>process.exit\<close> inside the operation is not an
  exception and never reaches the handler.
\<close>

definition spinnerGuard :: "(world \<Rightarrow> 'a result \<times> world) \<Rightarrow> world \<Rightarrow> 'a result \<times> world" where
  "spinnerGuard fn w =
     (case fn w of
        (Inr v, w') \<Rightarrow> (Inr v, w')
      | (Inl (Exit n), w') \<Rightarrow> (Inl (Exit n), w')
      | (Inl (Throw ex), w') \<Rightarrow>
          (Inl (Throw ex), if isSpinning (spinner w') then ora_fail w' else w'))"

subsection \<open>The validate command\<close>

definition validateManifest :: "externals \<Rightarrow> Opts \<Rightarrow> world \<Rightarrow> unit result \<times> world" where
  "validateManifest x opts w0 =
     spinnerGuard
       (\<lambda>w. case apiValidateManifest x opts of
               Inl failed \<Rightarrow> (Inl failed, w)
             | Inr validationErrors \<Rightarrow>
                 if length validationErrors = 0 then (Inr (), ora_succeed w)
                 else
                   (case printValidationErrors (stringLocaleCompare x) (getNpmPackageName x)
                           validationErrors (ora_fail w) of
                      (Inl failed, w') \<Rightarrow> (Inl failed, w')
                    | (Inr u, w') \<Rightarrow> (Inr (), w'\<lparr>exitCode := Some 1\<rparr>)))
       (ora_start ''Validating overrides'' w0)"

subsection \<open>The manifest store\<close>

text \<open>
  \<^verbatim>\<open>Api.hasOverride\<close>, \<^verbatim>\<open>Api.removeOverride\<close> and \<^verbatim>\<open>Api.addOverride\<close>
  are not in Cli.ts. Section 4.1 of the specification gives the contract of the manifest
  store they work on. The manifest of the state is the one at the path findManifest
  returned.
\<close>

text \<open>Modelled from the spec: \<^verbatim>\<open>has(overrideName)\<close> of section 4.1, whether an
  entry of the name exists.\<close>

definition hasOverride :: "string \<Rightarrow> OverrideEntry list \<Rightarrow> bool" where
  "hasOverride name m = (name \<in> set (map entryName m))"

text \<open>Modelled from the spec: \<^verbatim>\<open>remove(overrideName)\<close> of section 4.1, true if
  an entry existed and was removed, false otherwise and not an error.\<close>

definition manifestRemove :: "string \<Rightarrow> OverrideEntry list \<Rightarrow> bool \<times> OverrideEntry list" where
  "manifestRemove name m = (hasOverride name m, filter (\<lambda>e. entryName e \<noteq> name) m)"

text \<open>Modelled from the spec: \<^verbatim>\<open>add(entry)\<close> of section 4.1, which inserts the
  entry or replaces the entry of the same name.\<close>

definition manifestAdd :: "OverrideEntry \<Rightarrow> OverrideEntry list \<Rightarrow> OverrideEntry list" where
  "manifestAdd entry m =
     (if hasOverride (entryName entry) m
      then map (\<lambda>e. if entryName e = entryName entry then entry else e) m
      else m @ [entry])"

text \<open>Modelled from the spec: \<^verbatim>\<open>Api.hasOverride\<close>, the store's
  \<^verbatim>\<open>has\<close> on the manifest on disk.\<close>

definition apiHasOverride :: "string \<Rightarrow> world \<Rightarrow> bool" where
  "apiHasOverride name w = hasOverride name (manifest w)"

text \<open>Modelled from the spec: \<^verbatim>\<open>Api.removeOverride\<close>, the store's
  \<^verbatim>\<open>remove\<close> on the manifest on disk, saved afterwards.\<close>

definition apiRemoveOverride :: "string \<Rightarrow> world \<Rightarrow> bool \<times> world" where
  "apiRemoveOverride name w =
     (fst (manifestRemove name (manifest w)), w\<lparr>manifest := snd (manifestRemove name (manifest w))\<rparr>)"

text \<open>Modelled from the spec: \<^verbatim>\<open>Api.addOverride\<close>, the store's
  \<^verbatim>\<open>add\<close> on the manifest on disk, saved afterwards.\<close>

definition apiAddOverride :: "OverrideEntry \<Rightarrow> world \<Rightarrow> world" where
  "apiAddOverride entry w = w\<lparr>manifest := manifestAdd entry (manifest w)\<rparr>"

subsection \<open>The add and remove commands\<close>

definition addOverride :: "externals \<Rightarrow> string \<Rightarrow> world \<Rightarrow> unit result \<times> world" where
  "addOverride x overridePath w0 =
     (case findManifest x (pathDirname x overridePath) of
        Inl failed \<Rightarrow> (Inl failed, w0)
      | Inr manifestPath' \<Rightarrow>
          let manifestDir = pathDirname x manifestPath';
              overrideName' = pathRelative x manifestDir (pathResolve x overridePath);
              w1 = (if apiHasOverride overrideName' w0
                    then console_warn yellow
                           ''Warning: override already exists in manifest and will be overwritten'' w0
                    else w0)
          in case promptForOverrideDetails x of
               Inl failed \<Rightarrow> (Inl failed, w1)
             | Inr overrideDetails \<Rightarrow>
                 spinnerGuard
                   (\<lambda>w. case overrideFromDetails x overridePath overrideDetails of
                           Inl failed \<Rightarrow> (Inl failed, w)
                         | Inr override \<Rightarrow>
                             (Inr (),
                              ora_succeed
                                (apiAddOverride override (snd (apiRemoveOverride overrideName' w)))))
                   (ora_start ''Adding override'' w1))"

definition removeOverride :: "externals \<Rightarrow> string \<Rightarrow> world \<Rightarrow> unit result \<times> world" where
  "removeOverride x overridePath w0 =
     (case findManifest x (pathDirname x overridePath) of
        Inl failed \<Rightarrow> (Inl failed, w0)
      | Inr manifestPath' \<Rightarrow>
          let manifestDir = pathDirname x manifestPath';
              overrideName' = pathRelative x manifestDir (pathResolve x overridePath);
              (removed, w1) = apiRemoveOverride overrideName' w0
          in if removed
             then (Inr (), console_log greenBright ''Override successfully removed'' w1)
             else (Inl (Exit 1),
                   console_error red ''Could not remove override. Is it part of the manifest?'' w1))"

subsection \<open>The upgrade engine\<close>

text \<open>A number in a template string: its decimal digits.\<close>

fun showNat :: "nat \<Rightarrow> string" where
  "showNat n =
     (if n < 10 then [char_of (48 + n)]
      else showNat (n div 10) @ [char_of (48 + n mod 10)])"

text \<open>
  \<^verbatim>\<open>Api.upgradeOverrides\<close> is not in Cli.ts. Section 4.4 of the specification
  gives its algorithm and section 4.3 the condition under which an entry is out of date.
  The upstream content provider and the three-way merge are the parameters
  \<open>upstreamContent\<close> and \<open>threeWayMerge\<close>.
\<close>

text \<open>Modelled from the spec: the \<^verbatim>\<open>outOfDate\<close> condition of section 4.3. The
  recorded base version of the entry differs from the target version and the content of
  its base file differs between the two versions.\<close>

definition outOfDate :: "externals \<Rightarrow> string \<Rightarrow> OverrideEntry \<Rightarrow> bool" where
  "outOfDate x version e =
     (case (baseFile e, baseVersion e) of
        (Some base, Some recorded) \<Rightarrow>
          recorded \<noteq> version \<and>
          (case (upstreamContent x base recorded, upstreamContent x base version) of
             (Some oldBase, Some newBase) \<Rightarrow> oldBase \<noteq> newBase
           | _ \<Rightarrow> False)
      | _ \<Rightarrow> False)"

text \<open>Modelled from the spec: steps 1 and 2 of section 4.4. The old base, the new base
  and the current override content are fetched and merged: merged content and conflict
  flag, or nothing when one of the three contents cannot be read.\<close>

definition mergeEntry :: "externals \<Rightarrow> string \<Rightarrow> world \<Rightarrow> OverrideEntry \<Rightarrow> (string \<times> bool) option" where
  "mergeEntry x version w e =
     (case (baseFile e, baseVersion e) of
        (Some base, Some recorded) \<Rightarrow>
          (case (upstreamContent x base recorded, upstreamContent x base version,
                 files w (entryName e)) of
             (Some oldBase, Some newBase, Some ours) \<Rightarrow> Some (threeWayMerge x oldBase newBase ours)
           | _ \<Rightarrow> None)
      | _ \<Rightarrow> None)"

text \<open>Modelled from the spec: step 4 of section 4.4. The merged content replaces the
  override file and the entry records the target version (the manifest is persisted
  entry by entry, which the section allows).\<close>

definition writeMerged :: "string \<Rightarrow> string \<Rightarrow> string \<Rightarrow> world \<Rightarrow> world" where
  "writeMerged name version merged w =
     w\<lparr>files := (files w)(name \<mapsto> merged),
       manifest := map (\<lambda>e. if entryName e = name then e\<lparr>baseVersion := Some version\<rparr> else e)
                     (manifest w)\<rparr>"

text \<open>Modelled from the spec: the loop of section 4.4 over the entries that are out of
  date, in manifest order. Before each entry the progress listener is called with the
  position of the entry (counted from 1) and the number of such entries (step 5); a merge
  with conflicts is not written when conflicts are not allowed (step 3) and is written
  otherwise (step 4); every processed entry gives one result. An override file that
  cannot be read aborts the run, as section 7 says of I/O failures.\<close>

fun upgradeEntries ::
  "externals \<Rightarrow> string \<Rightarrow> bool \<Rightarrow> (nat \<Rightarrow> nat \<Rightarrow> world \<Rightarrow> world) \<Rightarrow> nat \<Rightarrow> nat
     \<Rightarrow> OverrideEntry list \<Rightarrow> world \<Rightarrow> UpgradeResult list result \<times> world"
where
  "upgradeEntries x version allow onProgress i n [] w = (Inr [], w)"
| "upgradeEntries x version allow onProgress i n (e # es) w =
     (let w1 = onProgress i n w in
      case mergeEntry x version w1 e of
        None \<Rightarrow> (Inl (Throw ''ENOENT''), w1)
      | Some (merged, conflicts) \<Rightarrow>
          let w2 = (if conflicts \<and> \<not> allow then w1
                    else writeMerged (entryName e) version merged w1)
          in case upgradeEntries x version allow onProgress (Suc i) n es w2 of
               (Inl failed, w3) \<Rightarrow> (Inl failed, w3)
             | (Inr results, w3) \<Rightarrow>
                 (Inr (\<lparr>resultName = entryName e, hasConflicts = conflicts\<rparr> # results), w3))"

text \<open>Modelled from the spec: the target upstream version, the
  \<^verbatim>\<open>reactNativeVersion\<close> option when given and the installed version otherwise.\<close>

definition targetVersion :: "externals \<Rightarrow> 'a Opts_scheme \<Rightarrow> string" where
  "targetVersion x opts =
     (case reactNativeVersion opts of None \<Rightarrow> installedVersion x | Some v \<Rightarrow> v)"

text \<open>Modelled from the spec: \<^verbatim>\<open>upgradeOverrides\<close> of section 4.4, the loop on
  the entries the validation flags as out of date.\<close>

definition apiUpgradeOverrides ::
  "externals \<Rightarrow> UpgradeOpts \<Rightarrow> (nat \<Rightarrow> nat \<Rightarrow> world \<Rightarrow> world) \<Rightarrow> world
     \<Rightarrow> UpgradeResult list result \<times> world"
where
  "apiUpgradeOverrides x opts progressListener w =
     (let stale = filter (outOfDate x (targetVersion x opts)) (manifest w)
      in upgradeEntries x (targetVersion x opts) (allowConflicts opts) progressListener
           1 (length stale) stale w)"

subsection \<open>The upgrade command\<close>

definition printUpgradeStats :: "UpgradeResult list \<Rightarrow> bool \<Rightarrow> world \<Rightarrow> world" where
  "printUpgradeStats results allow w0 =
     (let numTotal = length results;
          numConflicts = length (filter hasConflicts results);
          numAutoPatched = numTotal - numConflicts;
          w1 = (if numTotal = 0
                then console_log greenBright ''No out-of-date overrides detected'' w0
                else console_log greenBright
                       (showNat numAutoPatched @ ''/'' @ showNat numTotal
                          @ '' out-of-date overrides automatically merged'') w0)
      in if allow \<and> numConflicts > 0
         then console_log yellowBright
                (showNat numConflicts @ '' overrides require manual resolution'') w1
         else w1)"

text \<open>The \<^verbatim>\<open>progressListener\<close> the command hands to the engine: it sets the text
  of the spinner.\<close>

definition progressListener :: "nat \<Rightarrow> nat \<Rightarrow> world \<Rightarrow> world" where
  "progressListener currentOverride totalOverrides =
     ora_text (''Merging overrides ('' @ showNat currentOverride @ ''/''
                 @ showNat totalOverrides @ '')'')"

definition upgrade :: "externals \<Rightarrow> UpgradeOpts \<Rightarrow> world \<Rightarrow> unit result \<times> world" where
  "upgrade x opts w0 =
     spinnerGuard
       (\<lambda>w. case apiUpgradeOverrides x opts progressListener w of
               (Inl failed, w') \<Rightarrow> (Inl failed, w')
             | (Inr upgradeResults, w') \<Rightarrow>
                 (Inr (), printUpgradeStats upgradeResults (allowConflicts opts) (ora_succeed w')))
       (ora_start ''Merging overrides'' w0)"

subsection \<open>The cross-process lock and doMain\<close>

text \<open>
  \<^verbatim>\<open>CrossProcessLock\<close> is not in Cli.ts. Section 4.5 of the specification gives
  its contract. The lock has at most one holder, a process number, and every call is
  recorded in \<open>lockCalls\<close>, a blocking \<^verbatim>\<open>lock\<close> when it returns.
\<close>

text \<open>Modelled from the spec: \<^verbatim>\<open>tryLock()\<close> of section 4.5, which never blocks
  and returns true if it acquired the lock.\<close>

definition tryLock :: "nat \<Rightarrow> world \<Rightarrow> bool \<times> world" where
  "tryLock p w =
     (if lockHolder w = None
      then (True, w\<lparr>lockHolder := Some p, lockCalls := lockCalls w @ [TryLock p]\<rparr>)
      else (False, w\<lparr>lockCalls := lockCalls w @ [TryLock p]\<rparr>))"

text \<open>Modelled from the spec: \<^verbatim>\<open>unlock()\<close> of section 4.5, which releases the
  lock its caller holds.\<close>

definition unlock :: "nat \<Rightarrow> world \<Rightarrow> world" where
  "unlock p w =
     w\<lparr>lockHolder := (if lockHolder w = Some p then None else lockHolder w),
       lockCalls := lockCalls w @ [Unlock p]\<rparr>"

text \<open>Modelled from the spec: a call that another process makes while this one is
  blocked. Its \<^verbatim>\<open>lock()\<close> returns only if the lock is free and waits
  otherwise.\<close>

fun otherCall :: "lockCall \<Rightarrow> world \<Rightarrow> world" where
  "otherCall (TryLock q) w = snd (tryLock q w)"
| "otherCall (Unlock q) w = unlock q w"
| "otherCall (Lock q) w =
     (if lockHolder w = None
      then w\<lparr>lockHolder := Some q, lockCalls := lockCalls w @ [Lock q]\<rparr>
      else w)"

text \<open>Modelled from the spec: \<^verbatim>\<open>lock()\<close> of section 4.5, which blocks until the
  acquisition succeeds, with no timeout. While the caller is blocked the other processes
  go on: their calls are the list \<open>others\<close>, taken one at a time for as long as the
  lock is held. If the lock is still held when the others have nothing left to do, the
  call never returns, which is the value \<open>None\<close>.\<close>

fun lock :: "nat \<Rightarrow> lockCall list \<Rightarrow> world \<Rightarrow> world option" where
  "lock p others w =
     (if lockHolder w = None
      then Some (w\<lparr>lockHolder := Some p, lockCalls := lockCalls w @ [Lock p]\<rparr>)
      else (case others of
              [] \<Rightarrow> None
            | call # rest \<Rightarrow> lock p rest (otherCall call w)))"

text \<open>
  doMain for process \<open>p\<close>. The function \<^verbatim>\<open>fn\<close> returns a promise, which may
  stay unsettled for ever: that is the value \<open>None\<close> of \<^verbatim>\<open>fn\<close>. The result of
  doMain is \<open>None\<close> when the process waits for ever, for the lock or for
  \<^verbatim>\<open>fn\<close>. There is no \<^verbatim>\<open>finally\<close>: \<^verbatim>\<open>lock.unlock()\<close> is the
  statement after \<^verbatim>\<open>await fn()\<close> and runs only when \<^verbatim>\<open>fn\<close> returns.
\<close>

definition doMain ::
  "nat \<Rightarrow> lockCall list \<Rightarrow> (world \<Rightarrow> (unit result \<times> world) option) \<Rightarrow> world
     \<Rightarrow> (unit result \<times> world) option"
where
  "doMain p others fn w0 =
     (let (acquired, w1) = tryLock p w0;
          waited = (if \<not> acquired
                    then map_option ora_stop
                           (lock p others
                              (ora_start ''Waiting for other instances of the override CLI to finish'' w1))
                    else Some w1)
      in case waited of
           None \<Rightarrow> None
         | Some w2 \<Rightarrow>
             (case fn w2 of
                None \<Rightarrow> None
              | Some (Inl failed, w3) \<Rightarrow> Some (Inl failed, w3)
              | Some (Inr u, w3) \<Rightarrow> Some (Inr (), unlock p w3)))"

subsection \<open>The commands of the yargs parser\<close>

text \<open>
  What yargs hands to a command: the options as typed on the command line, an absent
  option being \<open>None\<close>. The \<^verbatim>\<open>conflicts\<close> option of \<^verbatim>\<open>upgrade\<close> is
  declared with \<^verbatim>\<open>default: true\<close>, the value yargs gives it when it is absent.
\<close>

record UpgradeArgv =
  argManifest :: "string option"
  argConflicts :: "bool option"
  argVersion :: "string option"

datatype command =
    Validate "string option" "string option"
  | Add string
  | Remove string
  | Upgrade UpgradeArgv

definition conflictsOption :: "bool option \<Rightarrow> bool" where
  "conflictsOption given = (case given of None \<Rightarrow> True | Some b \<Rightarrow> b)"

text \<open>The options the handler of \<^verbatim>\<open>upgrade\<close> passes on.\<close>

definition upgradeOptions :: "UpgradeArgv \<Rightarrow> UpgradeOpts" where
  "upgradeOptions cmdArgv =
     \<lparr>manifestPath = argManifest cmdArgv, reactNativeVersion = argVersion cmdArgv,
      allowConflicts = conflictsOption (argConflicts cmdArgv)\<rparr>"

fun runCommand :: "externals \<Rightarrow> command \<Rightarrow> world \<Rightarrow> unit result \<times> world" where
  "runCommand x (Validate m v) w =
     validateManifest x \<lparr>manifestPath = m, reactNativeVersion = v\<rparr> w"
| "runCommand x (Add override) w = addOverride x override w"
| "runCommand x (Remove override) w = removeOverride x override w"
| "runCommand x (Upgrade argv) w = upgrade x (upgradeOptions argv) w"

text \<open>
  The function that Cli.ts hands to doMain. It returns a promise that only
  \<^verbatim>\<open>onFinishCommand(resolve)\<close> settles, when the handler of the command has
  finished; the \<^verbatim>\<open>_reject\<close> of the promise is not used, so an error thrown by the
  handler never comes out of this function as an error. A handler that calls
  \<^verbatim>\<open>process.exit\<close> ends the process. What yargs does with a handler that throws
  is outside Cli.ts and is the parameter \<open>yargsFail\<close>: it ends the process with an
  exit code, or it leaves the promise unsettled (\<open>None\<close>).
\<close>

definition yargsCommand :: "externals \<Rightarrow> command \<Rightarrow> world \<Rightarrow> (unit result \<times> world) option" where
  "yargsCommand x cmd w =
     (case runCommand x cmd w of
        (Inr u, w') \<Rightarrow> Some (Inr (), w')
      | (Inl (Exit n), w') \<Rightarrow> Some (Inl (Exit n), w')
      | (Inl (Throw ex), w') \<Rightarrow>
          (case yargsFail x ex w' of
             None \<Rightarrow> None
           | Some (n, w'') \<Rightarrow> Some (Inl (Exit n), w'')))"

text \<open>The program: doMain on that function.\<close>

definition main :: "externals \<Rightarrow> nat \<Rightarrow> lockCall list \<Rightarrow> command \<Rightarrow> world
     \<Rightarrow> (unit result \<times> world) option" where
  "main x p others cmd w = doMain p others (yargsCommand x cmd) w"

subsection \<open>Notions used in the statements\<close>

text \<open>Two errors in the order of the sort: the first does not compare greater than the
  second.\<close>

abbreviation (input) le_by :: "(string \<Rightarrow> string \<Rightarrow> int) \<Rightarrow> ValidationError \<Rightarrow> ValidationError \<Rightarrow> bool" where
  "le_by cmp a b \<equiv> cmp (overrideName a) (overrideName b) \<le> 0"

text \<open>The errors whose name \<^verbatim>\<open>localeCompare\<close> treats as equal to a given name.\<close>

definition comparesEqual :: "(string \<Rightarrow> string \<Rightarrow> int) \<Rightarrow> string \<Rightarrow> ValidationError \<Rightarrow> bool" where
  "comparesEqual localeCompare a err = (localeCompare a (overrideName err) = 0)"

text \<open>The manifest after the add flow: the entry of the computed name removed, the new
  override added.\<close>

definition readded :: "string \<Rightarrow> OverrideEntry \<Rightarrow> OverrideEntry list \<Rightarrow> OverrideEntry list" where
  "readded name ov m = manifestAdd ov (filter (\<lambda>e. entryName e \<noteq> name) m)"

text \<open>The progress listener leaves the override files and the manifest alone.\<close>

definition keepsStore :: "(nat \<Rightarrow> nat \<Rightarrow> world \<Rightarrow> world) \<Rightarrow> bool" where
  "keepsStore listener =
     (\<forall>i n w. files (listener i n w) = files w \<and> manifest (listener i n w) = manifest w)"

text \<open>The entries of one name, as the manifest of a state holds them.\<close>

definition entriesNamed :: "string \<Rightarrow> world \<Rightarrow> OverrideEntry list" where
  "entriesNamed name w = filter (\<lambda>e. entryName e = name) (manifest w)"

text \<open>What the run leaves for an entry it processes: untouched when the merge has
  conflicts and conflicts are not allowed, written otherwise, reported in both cases.\<close>

definition entryOutcome ::
  "string \<Rightarrow> bool \<Rightarrow> OverrideEntry \<Rightarrow> string \<Rightarrow> bool \<Rightarrow> world \<Rightarrow> UpgradeResult list result \<times> world \<Rightarrow> bool"
where
  "entryOutcome v allow e merged c w R =
     ((c \<and> \<not> allow \<longrightarrow>
         files (snd R) (entryName e) = files w (entryName e)
       \<and> entriesNamed (entryName e) (snd R) = entriesNamed (entryName e) w)
      \<and> (\<forall>rs. fst R = Inr rs \<longrightarrow>
           \<lparr>resultName = entryName e, hasConflicts = c\<rparr> \<in> set rs
         \<and> (\<not> (c \<and> \<not> allow) \<longrightarrow>
              files (snd R) (entryName e) = Some merged
            \<and> entriesNamed (entryName e) (snd R)
                = map (\<lambda>e. e\<lparr>baseVersion := Some v\<rparr>) (entriesNamed (entryName e) w))))"

text \<open>The lock calls a function added to the record of the state it started from.\<close>

definition newLockCalls :: "world \<Rightarrow> world \<Rightarrow> lockCall list" where
  "newLockCalls w w' = drop (length (lockCalls w)) (lockCalls w')"

text \<open>An operation that leaves the lock to doMain.\<close>

definition keepsLock :: "(world \<Rightarrow> (unit result \<times> world) option) \<Rightarrow> bool" where
  "keepsLock fn =
     (\<forall>w r w'. fn w = Some (r, w') \<longrightarrow>
        lockHolder w' = lockHolder w \<and> lockCalls w' = lockCalls w)"

subsection \<open>Concrete inputs\<close>

text \<open>A state with nothing printed, no manifest entry, no file and the lock free.\<close>

definition emptyWorld :: world where
  "emptyWorld =
     \<lparr>stdio = [], exitCode = None, spinner = \<lparr>spinnerText = [], isSpinning = False\<rparr>,
      manifest = [], files = Map.empty, lockHolder = None, lockCalls = []\<rparr>"

text \<open>One file name in two spellings that are canonically equivalent in Unicode, as UTF-8
  bytes: with the precomposed letter U+00E9, and with U+0065 followed by U+0301.\<close>

definition cafePrecomposed :: string where
  "cafePrecomposed = ''caf'' @ [CHR 0xC3, CHR 0xA9] @ ''.js''"

definition cafeDecomposed :: string where
  "cafeDecomposed = ''cafe'' @ [CHR 0xCC, CHR 0x81] @ ''.js''"

text \<open>An operation that reports success on the spinner and fails afterwards, as the
  operation of the upgrade command does when printing the statistics fails.\<close>

definition lateFailure :: "world \<Rightarrow> unit result \<times> world" where
  "lateFailure w = (Inl (Throw ''EPIPE''), ora_succeed w)"

text \<open>One set of values for the functions outside Cli.ts: a manifest is found for every
  path, validation finds one error, no error or no manifest depending on the manifest
  option, yargs prints the error of a handler that throws and ends the process with
  code 1, the base file of the view override changed after version 0.62.0, and the merge
  reports a conflict whenever the override differs from the old base.\<close>

definition exampleExternals :: externals where
  "exampleExternals =
     \<lparr>getNpmPackageName = ''react-native-platform-override'',
      stringLocaleCompare = compareBytes,
      findManifest = (\<lambda>dir. Inr ''/repo/overrides.json''),
      pathDirname = (\<lambda>p. ''/repo''),
      pathResolve = (\<lambda>p. ''/repo/'' @ p),
      pathRelative = (\<lambda>dir p. drop (Suc (length dir)) p),
      promptForOverrideDetails =
        Inr \<lparr>detailsType = patch, detailsBaseFile = Some ''Libraries/View.js'',
             detailsIssue = None, detailsComment = None\<rparr>,
      overrideFromDetails =
        (\<lambda>p d. Inr \<lparr>entryName = p, entryType = detailsType d, baseFile = detailsBaseFile d,
                     baseVersion = Some ''0.62.0'', issue = detailsIssue d,
                     comment = detailsComment d\<rparr>),
      apiValidateManifest =
        (\<lambda>opts. case manifestPath opts of
                  None \<Rightarrow> Inr [\<lparr>errorType = ''outOfDate'', overrideName = ''View.windows.js''\<rparr>]
                | Some p \<Rightarrow> if p = ''clean/overrides.json'' then Inr []
                            else Inl (Throw ''ManifestNotFound'')),
      yargsFail = (\<lambda>ex w. Some (1, console_error plain ex w)),
      installedVersion = ''0.63.0'',
      upstreamContent =
        (\<lambda>base version. if base = ''Libraries/View.js''
                         then Some (if version = ''0.62.0'' then ''foo'' else ''foo bar'')
                         else None),
      threeWayMerge =
        (\<lambda>oldBase newBase ours. if ours = oldBase then (newBase, False)
                                 else (''<<<<<<<'' @ ours @ ''======='' @ newBase @ ''>>>>>>>'', True))\<rparr>"

text \<open>Two manifest entries, and a state that holds them with the override file of the
  first.\<close>

definition viewEntry :: "string \<Rightarrow> OverrideEntry" where
  "viewEntry version =
     \<lparr>entryName = ''View.windows.js'', entryType = patch, baseFile = Some ''Libraries/View.js'',
      baseVersion = Some version, issue = None, comment = None\<rparr>"

definition textEntry :: OverrideEntry where
  "textEntry =
     \<lparr>entryName = ''Text.windows.js'', entryType = copy, baseFile = Some ''Libraries/Text.js'',
      baseVersion = Some ''0.62.0'', issue = None, comment = None\<rparr>"

definition exampleWorld :: world where
  "exampleWorld =
     emptyWorld\<lparr>manifest := [viewEntry ''0.62.0'', textEntry],
                files := [''View.windows.js'' \<mapsto> ''foo note'']\<rparr>"

text \<open>A state in which process 2 holds the lock.\<close>

definition heldWorld :: world where
  "heldWorld = emptyWorld\<lparr>lockHolder := Some 2\<rparr>"

text \<open>The upgrade command without any option, the upgrade options with conflicts not
  allowed, and the merge result of the view override.\<close>

definition defaultArgv :: UpgradeArgv where
  "defaultArgv = \<lparr>argManifest = None, argConflicts = None, argVersion = None\<rparr>"

definition gatedOpts :: UpgradeOpts where
  "gatedOpts = \<lparr>manifestPath = None, reactNativeVersion = None, allowConflicts = False\<rparr>"

definition conflictText :: string where
  "conflictText = ''<<<<<<<foo note=======foo bar>>>>>>>''"

text \<open>Two validate commands: on a manifest without findings and on a manifest that does
  not exist.\<close>

definition cleanValidate :: command where
  "cleanValidate = Validate (Some ''clean/overrides.json'') None"

definition missingValidate :: command where
  "missingValidate = Validate (Some ''missing/overrides.json'') None"

section \<open>Properties\<close>

subsection \<open>Printing validation errors\<close>

lemma mset_insertError: "mset (insertError cmp a bs) = add_mset a (mset bs)"
  by (induction bs) auto

lemma mset_sortErrors: "mset (sortErrors cmp es) = mset es"
  unfolding sortErrors_def by (induction es) (auto simp: mset_insertError)

lemma sortErrors_Nil_iff: "sortErrors cmp es = [] \<longleftrightarrow> es = []"
  using mset_sortErrors [of cmp es] by (metis mset_zero_iff)

lemma printErrorType_eq:
  "printErrorType cmp t errs m w =
     (filter (\<lambda>err. errorType err \<noteq> t) errs, w\<lparr>stdio := stdio w @ groupLines cmp t m errs\<rparr>)"
  by (simp add: printErrorType_def groupLines_def Let_def console_error_def)

lemma groupLines_filter:
  assumes "k \<noteq> k'"
  shows "groupLines cmp k m (filter (\<lambda>err. errorType err \<noteq> k') errs) = groupLines cmp k m errs"
proof -
  from assms have "filter (\<lambda>err. errorType err = k) (filter (\<lambda>err. errorType err \<noteq> k') errs)
    = filter (\<lambda>err. errorType err = k) errs"
    by (induction errs) auto
  then show ?thesis by (simp add: groupLines_def)
qed

lemma printValidationErrors_printAll:
  "printValidationErrors cmp npmName errs w =
     (if errs = [] then (Inr (), w)
      else case printAll cmp (errorGroups npmName) errs (console_error plain [] w) of
        (errors, w') \<Rightarrow>
          if errors \<noteq> []
          then (Inl (Throw (''Unprinted errors present:'' @ [CHR 0x0A] @ joinObjects errors)), w')
          else (Inr (), w'))"
  by (simp add: printValidationErrors_def errorGroups_def Let_def split: prod.splits)

lemma printAll_eq:
  "distinct (map fst gs) \<Longrightarrow>
   printAll cmp gs errs w =
     (filter (\<lambda>err. errorType err \<notin> set (map fst gs)) errs,
      w\<lparr>stdio := stdio w @ concat (map (\<lambda>(t, m). groupLines cmp t m errs) gs)\<rparr>)"
proof (induction gs arbitrary: errs w)
  case Nil
  then show ?case by simp
next
  case (Cons g gs)
  obtain t m where g: "g = (t, m)" by (cases g)
  from Cons.prems g have t: "t \<notin> set (map fst gs)" and d: "distinct (map fst gs)" by auto
  have same: "map (\<lambda>(t', m'). groupLines cmp t' m' (filter (\<lambda>err. errorType err \<noteq> t) errs)) gs
      = map (\<lambda>(t', m'). groupLines cmp t' m' errs) gs"
  proof (intro map_cong refl)
    fix x assume x: "x \<in> set gs"
    obtain t' m' where x': "x = (t', m')" by (cases x)
    with x t have "t' \<noteq> t" by force
    then show "(case x of (t', m') \<Rightarrow> groupLines cmp t' m' (filter (\<lambda>err. errorType err \<noteq> t) errs))
        = (case x of (t', m') \<Rightarrow> groupLines cmp t' m' errs)"
      by (simp add: x' groupLines_filter)
  qed
  have flt: "filter (\<lambda>err. errorType err \<notin> set (map fst gs)) (filter (\<lambda>err. errorType err \<noteq> t) errs)
      = filter (\<lambda>err. errorType err \<notin> set (map fst (g # gs))) errs"
    using g by (induction errs) auto
  show ?case
    using Cons.IH [OF d, of "filter (\<lambda>err. errorType err \<noteq> t) errs"] same flt
    by (simp add: g printErrorType_eq)
qed

lemma errorKinds_groups: "map fst (errorGroups npmName) = errorKinds"
  by (simp add: errorGroups_def errorKinds_def)

lemma distinct_errorKinds: "distinct errorKinds"
  by (simp add: errorKinds_def)

lemma printValidationErrors_eq:
  "errs \<noteq> [] \<Longrightarrow> printValidationErrors cmp npmName errs w =
     (if unprinted errs \<noteq> []
      then Inl (Throw (''Unprinted errors present:'' @ [CHR 0x0A] @ joinObjects (unprinted errs)))
      else Inr (),
      w\<lparr>stdio := stdio w @ ConsoleError plain ''''
            # concat (map (\<lambda>(t, m). groupLines cmp t m errs) (errorGroups npmName))\<rparr>)"
  by (simp add: printValidationErrors_printAll printAll_eq errorKinds_groups distinct_errorKinds
        unprinted_def console_error_def)

lemma mset_partition_kinds:
  "distinct ks \<Longrightarrow>
   mset (concat (map (\<lambda>k. filter (\<lambda>err. errorType err = k) errs) ks))
     = mset (filter (\<lambda>err. errorType err \<in> set ks) errs)"
proof (induction ks)
  case Nil
  then show ?case by simp
next
  case (Cons k ks)
  then have k: "k \<notin> set ks" and d: "distinct ks" by auto
  have "mset (filter (\<lambda>err. errorType err = k) errs) + mset (filter (\<lambda>err. errorType err \<in> set ks) errs)
      = mset (filter (\<lambda>err. errorType err \<in> set (k # ks)) errs)"
    using k by (induction errs) auto
  with Cons.IH [OF d] show ?case by simp
qed

lemma isBullet_bullet: "isBullet (bullet e)"
  by (simp add: bullet_def)

lemma filter_isBullet_groupLines:
  "filter isBullet (groupLines cmp t m errs)
     = map bullet (sortErrors cmp (filter (\<lambda>err. errorType err = t) errs))"
proof -
  have "filter isBullet (map bullet es) = map bullet es" for es
    by (induction es) (simp_all add: isBullet_bullet)
  then show ?thesis
    by (simp add: groupLines_def Let_def)
qed

lemma mset_bullets_groups:
  "mset (filter isBullet (concat (map (\<lambda>(t, m). groupLines cmp t m errs) gs)))
     = image_mset bullet (mset (concat (map (\<lambda>k. filter (\<lambda>err. errorType err = k) errs) (map fst gs))))"
proof (induction gs)
  case Nil
  then show ?case by simp
next
  case (Cons g gs)
  obtain t m where g: "g = (t, m)" by (cases g)
  have "mset (map bullet (sortErrors cmp (filter (\<lambda>err. errorType err = t) errs)))
      = image_mset bullet (mset (filter (\<lambda>err. errorType err = t) errs))"
    by (simp add: mset_sortErrors)
  with Cons.IH show ?case
    by (simp add: g filter_isBullet_groupLines)
qed

lemma unprinted_Nil: "\<forall>err\<in>set errs. errorType err \<in> set errorKinds \<Longrightarrow> unprinted errs = []"
  by (simp add: unprinted_def)

lemma newOutput_append: "newOutput w (w'\<lparr>stdio := stdio w @ xs\<rparr>) = xs"
  by (simp add: newOutput_def)

text \<open>
  C6. When every error's type is one of the eight kinds of the taxonomy,
  printValidationErrors returns without throwing (the branch that throws
  "Unprinted errors present" is not taken), what it prints is the separating empty line
  followed by the groups of the eight kinds in the order of the calls, each group being
  its kind's message, the errors of that kind and an empty line, and the lines that name
  an override are, as a multiset, the errors of the input: each error is printed exactly
  once.
\<close>

theorem printValidationErrors_closed_taxonomy:
  assumes "\<forall>err\<in>set errs. errorType err \<in> set errorKinds"
  shows "fst (printValidationErrors localeCompare npmName errs w) = Inr ()
       \<and> newOutput w (snd (printValidationErrors localeCompare npmName errs w))
           = (if errs = [] then []
              else ConsoleError plain ''''
                   # concat (map (\<lambda>(t, m). groupLines localeCompare t m errs) (errorGroups npmName)))
       \<and> mset (filter isBullet (newOutput w (snd (printValidationErrors localeCompare npmName errs w))))
           = mset (map bullet errs)"
proof (cases "errs = []")
  case True
  then show ?thesis
    by (simp add: printValidationErrors_def newOutput_def)
next
  case False
  let ?groups = "concat (map (\<lambda>(t, m). groupLines localeCompare t m errs) (errorGroups npmName))"
  have out: "newOutput w (snd (printValidationErrors localeCompare npmName errs w))
      = ConsoleError plain '''' # ?groups"
    using False by (simp add: printValidationErrors_eq newOutput_append)
  have all: "filter (\<lambda>err. errorType err \<in> set errorKinds) errs = errs"
    using assms by simp
  have "mset (filter isBullet ?groups)
      = image_mset bullet (mset (concat (map (\<lambda>k. filter (\<lambda>err. errorType err = k) errs)
            (map fst (errorGroups npmName)))))"
    by (rule mset_bullets_groups)
  also have "\<dots> = image_mset bullet (mset (filter (\<lambda>err. errorType err \<in> set errorKinds) errs))"
    by (simp only: errorKinds_groups mset_partition_kinds [OF distinct_errorKinds])
  also have "\<dots> = mset (map bullet errs)"
    by (simp only: all mset_map)
  finally have "mset (filter isBullet ?groups) = mset (map bullet errs)" .
  then show ?thesis
    using False assms out by (simp add: printValidationErrors_eq unprinted_Nil)
qed

theorem printValidationErrors_closed_taxonomy_witness:
  "fst (printValidationErrors compareBytes ''rnw''
          [\<lparr>errorType = ''outOfDate'', overrideName = ''b.js''\<rparr>,
           \<lparr>errorType = ''baseNotFound'', overrideName = ''c.js''\<rparr>,
           \<lparr>errorType = ''outOfDate'', overrideName = ''a.js''\<rparr>]
          emptyWorld) = Inr ()
   \<and> stdio (snd (printValidationErrors compareBytes ''rnw''
          [\<lparr>errorType = ''outOfDate'', overrideName = ''b.js''\<rparr>,
           \<lparr>errorType = ''baseNotFound'', overrideName = ''c.js''\<rparr>,
           \<lparr>errorType = ''outOfDate'', overrideName = ''a.js''\<rparr>]
          emptyWorld))
     = [ConsoleError plain '''',
        ConsoleError red (msgBaseNotFound ''rnw''),
        ConsoleError plain '' - c.js'',
        ConsoleError plain '''',
        ConsoleError red (msgOutOfDate ''rnw''),
        ConsoleError plain '' - a.js'',
        ConsoleError plain '' - b.js'',
        ConsoleError plain '''']"
proof -
  let ?errs = "[\<lparr>errorType = ''outOfDate'', overrideName = ''b.js''\<rparr>,
           \<lparr>errorType = ''baseNotFound'', overrideName = ''c.js''\<rparr>,
           \<lparr>errorType = ''outOfDate'', overrideName = ''a.js''\<rparr>]"
  let ?w = emptyWorld
  have h: "\<forall>err\<in>set ?errs. errorType err \<in> set errorKinds"
    by (simp add: errorKinds_def)
  show ?thesis
    using printValidationErrors_closed_taxonomy [OF h, of compareBytes "''rnw''" ?w]
    by (simp add: newOutput_def errorGroups_def groupLines_def sortErrors_def bullet_def emptyWorld_def)
qed

lemma set_insertError: "set (insertError cmp a bs) = insert a (set bs)"
  by (induction bs) auto

lemma sorted_insertError:
  assumes tot: "\<And>a b. cmp a b \<le> 0 \<or> cmp b a \<le> 0"
    and trans: "\<And>a b c. cmp a b \<le> 0 \<Longrightarrow> cmp b c \<le> 0 \<Longrightarrow> cmp a c \<le> 0"
  shows "sorted_wrt (le_by cmp) bs \<Longrightarrow> sorted_wrt (le_by cmp) (insertError cmp a bs)"
proof (induction bs)
  case Nil
  then show ?case by simp
next
  case (Cons b bs)
  show ?case
  proof (cases "cmp (overrideName a) (overrideName b) \<le> 0")
    case True
    with Cons.prems trans show ?thesis by auto
  next
    case False
    with tot have "cmp (overrideName b) (overrideName a) \<le> 0" by blast
    with False Cons show ?thesis by (auto simp: set_insertError)
  qed
qed

lemma sorted_sortErrors:
  assumes tot: "\<And>a b. cmp a b \<le> 0 \<or> cmp b a \<le> 0"
    and trans: "\<And>a b c. cmp a b \<le> 0 \<Longrightarrow> cmp b c \<le> 0 \<Longrightarrow> cmp a c \<le> 0"
  shows "sorted_wrt (le_by cmp) (sortErrors cmp es)"
  unfolding sortErrors_def
proof (induction es)
  case Nil
  then show ?case by simp
next
  case (Cons e es)
  from sorted_insertError [of cmp, OF tot trans Cons.IH] show ?case by simp
qed

lemma joinObjects_length: "length xs = length ys \<Longrightarrow> joinObjects xs = joinObjects ys"
proof (induction xs arbitrary: ys rule: joinObjects.induct)
  case 1
  then show ?case by simp
next
  case (2 e)
  then show ?case by (cases ys) auto
next
  case (3 e v va)
  then obtain y y' ys' where "ys = y # y' # ys'"
    by (cases ys; cases "tl ys") auto
  with 3 show ?case by simp
qed

lemma filter_equal_insertError:
  assumes sign: "\<forall>a b. (cmp a b < 0) = (0 < cmp b a)"
    and trans: "\<forall>a b c. cmp a b \<le> 0 \<longrightarrow> cmp b c \<le> 0 \<longrightarrow> cmp a c \<le> 0"
  shows "filter (comparesEqual cmp a) (insertError cmp x ys)
       = (if comparesEqual cmp a x then x # filter (comparesEqual cmp a) ys
          else filter (comparesEqual cmp a) ys)"
proof (induction ys)
  case Nil
  then show ?case by simp
next
  case (Cons y ys)
  show ?case
  proof (cases "cmp (overrideName x) (overrideName y) \<le> 0")
    case True
    then show ?thesis by simp
  next
    case False
    have "\<not> (comparesEqual cmp a x \<and> comparesEqual cmp a y)"
    proof
      assume "comparesEqual cmp a x \<and> comparesEqual cmp a y"
      then have ax: "cmp a (overrideName x) = 0" and ay: "cmp a (overrideName y) = 0"
        by (simp_all add: comparesEqual_def)
      from ax sign have "cmp (overrideName x) a \<le> 0"
        by (metis less_irrefl not_le_imp_less)
      with ay trans have "cmp (overrideName x) (overrideName y) \<le> 0"
        by (metis order_refl)
      with False show False by simp
    qed
    with False Cons.IH show ?thesis by auto
  qed
qed

lemma filter_equal_sortErrors:
  assumes sign: "\<forall>a b. (cmp a b < 0) = (0 < cmp b a)"
    and trans: "\<forall>a b c. cmp a b \<le> 0 \<longrightarrow> cmp b c \<le> 0 \<longrightarrow> cmp a c \<le> 0"
  shows "filter (comparesEqual cmp a) (sortErrors cmp es) = filter (comparesEqual cmp a) es"
  unfolding sortErrors_def
  by (induction es) (simp_all add: filter_equal_insertError [OF sign trans])

lemma sorted_stable_unique:
  assumes sign: "\<forall>a b. (cmp a b < 0) = (0 < cmp b a)"
  shows "sorted_wrt (le_by cmp) xs \<Longrightarrow> sorted_wrt (le_by cmp) ys \<Longrightarrow> mset xs = mset ys \<Longrightarrow>
     (\<forall>a. filter (comparesEqual cmp a) xs = filter (comparesEqual cmp a) ys) \<Longrightarrow> xs = ys"
proof (induction xs arbitrary: ys)
  case Nil
  then show ?case by simp
next
  case (Cons x xs)
  from Cons.prems(3) obtain y ys' where ys: "ys = y # ys'"
    by (cases ys) auto
  have sets: "set (x # xs) = set (y # ys')"
    using Cons.prems(3) ys by (metis mset_eq_setD)
  have self: "comparesEqual cmp (overrideName x) x"
  proof -
    from sign have "(cmp (overrideName x) (overrideName x) < 0) = (0 < cmp (overrideName x) (overrideName x))"
      by blast
    then have "cmp (overrideName x) (overrideName x) = 0" by linarith
    then show ?thesis by (simp add: comparesEqual_def)
  qed
  have xy: "comparesEqual cmp (overrideName x) y"
  proof (cases "x = y")
    case True
    with self show ?thesis by simp
  next
    case False
    with sets have "x \<in> set ys'" and "y \<in> set xs" by auto
    with Cons.prems(1,2) ys have "le_by cmp y x" and "le_by cmp x y" by auto
    moreover from sign have "(cmp (overrideName x) (overrideName y) < 0) = (0 < cmp (overrideName y) (overrideName x))"
      by blast
    ultimately have "cmp (overrideName x) (overrideName y) = 0" by linarith
    then show ?thesis by (simp add: comparesEqual_def)
  qed
  from Cons.prems(4) have "filter (comparesEqual cmp (overrideName x)) (x # xs)
      = filter (comparesEqual cmp (overrideName x)) (y # ys')"
    unfolding ys by blast
  with self xy have head: "x = y" by simp
  have "xs = ys'"
  proof (rule Cons.IH)
    show "sorted_wrt (le_by cmp) xs" using Cons.prems(1) by simp
    show "sorted_wrt (le_by cmp) ys'" using Cons.prems(2) ys by simp
    show "mset xs = mset ys'" using Cons.prems(3) ys head by simp
    show "\<forall>a. filter (comparesEqual cmp a) xs = filter (comparesEqual cmp a) ys'"
    proof
      fix a
      from Cons.prems(4) have "filter (comparesEqual cmp a) (x # xs) = filter (comparesEqual cmp a) (x # ys')"
        unfolding ys head by blast
      then show "filter (comparesEqual cmp a) xs = filter (comparesEqual cmp a) ys'"
        by (simp split: if_splits)
    qed
  qed
  with head ys show ?case by simp
qed

lemma sortErrors_group_stable:
  assumes sign: "\<forall>a b. (cmp a b < 0) = (0 < cmp b a)"
    and trans: "\<forall>a b c. cmp a b \<le> 0 \<longrightarrow> cmp b c \<le> 0 \<longrightarrow> cmp a c \<le> 0"
    and perm: "mset errs = mset errs'"
    and order: "\<forall>a. filter (comparesEqual cmp a) (filter (\<lambda>err. errorType err = t) errs)
                   = filter (comparesEqual cmp a) (filter (\<lambda>err. errorType err = t) errs')"
  shows "sortErrors cmp (filter (\<lambda>err. errorType err = t) errs)
       = sortErrors cmp (filter (\<lambda>err. errorType err = t) errs')"
proof (rule sorted_stable_unique [OF sign])
  have tot: "\<And>a b. cmp a b \<le> 0 \<or> cmp b a \<le> 0"
    using sign by (metis less_le_not_le linorder_le_cases)
  have tr: "\<And>a b c. cmp a b \<le> 0 \<Longrightarrow> cmp b c \<le> 0 \<Longrightarrow> cmp a c \<le> 0"
    using trans by blast
  show "sorted_wrt (le_by cmp) (sortErrors cmp (filter (\<lambda>err. errorType err = t) errs))"
    by (rule sorted_sortErrors [OF tot tr])
  show "sorted_wrt (le_by cmp) (sortErrors cmp (filter (\<lambda>err. errorType err = t) errs'))"
    by (rule sorted_sortErrors [OF tot tr])
  show "mset (sortErrors cmp (filter (\<lambda>err. errorType err = t) errs))
      = mset (sortErrors cmp (filter (\<lambda>err. errorType err = t) errs'))"
    using perm by (simp add: mset_sortErrors)
  show "\<forall>a. filter (comparesEqual cmp a) (sortErrors cmp (filter (\<lambda>err. errorType err = t) errs))
      = filter (comparesEqual cmp a) (sortErrors cmp (filter (\<lambda>err. errorType err = t) errs'))"
  proof
    fix a
    from order have o: "filter (comparesEqual cmp a) (filter (\<lambda>err. errorType err = t) errs)
        = filter (comparesEqual cmp a) (filter (\<lambda>err. errorType err = t) errs')"
      by blast
    show "filter (comparesEqual cmp a) (sortErrors cmp (filter (\<lambda>err. errorType err = t) errs))
        = filter (comparesEqual cmp a) (sortErrors cmp (filter (\<lambda>err. errorType err = t) errs'))"
      unfolding filter_equal_sortErrors [OF sign trans] by (rule o)
  qed
qed

lemma same_order_iff_same_group:
  assumes sign: "\<forall>a b. (cmp a b < 0) = (0 < cmp b a)"
    and trans: "\<forall>a b c. cmp a b \<le> 0 \<longrightarrow> cmp b c \<le> 0 \<longrightarrow> cmp a c \<le> 0"
    and perm: "mset errs = mset errs'"
  shows "(\<forall>a. filter (comparesEqual cmp a) (filter (\<lambda>err. errorType err = t) errs)
              = filter (comparesEqual cmp a) (filter (\<lambda>err. errorType err = t) errs'))
       = (sortErrors cmp (filter (\<lambda>err. errorType err = t) errs)
            = sortErrors cmp (filter (\<lambda>err. errorType err = t) errs'))"
proof
  assume "\<forall>a. filter (comparesEqual cmp a) (filter (\<lambda>err. errorType err = t) errs)
              = filter (comparesEqual cmp a) (filter (\<lambda>err. errorType err = t) errs')"
  then show "sortErrors cmp (filter (\<lambda>err. errorType err = t) errs)
            = sortErrors cmp (filter (\<lambda>err. errorType err = t) errs')"
    by (rule sortErrors_group_stable [OF sign trans perm])
next
  assume same: "sortErrors cmp (filter (\<lambda>err. errorType err = t) errs)
            = sortErrors cmp (filter (\<lambda>err. errorType err = t) errs')"
  show "\<forall>a. filter (comparesEqual cmp a) (filter (\<lambda>err. errorType err = t) errs)
              = filter (comparesEqual cmp a) (filter (\<lambda>err. errorType err = t) errs')"
  proof
    fix a
    have "filter (comparesEqual cmp a) (filter (\<lambda>err. errorType err = t) errs)
        = filter (comparesEqual cmp a) (sortErrors cmp (filter (\<lambda>err. errorType err = t) errs))"
      by (simp only: filter_equal_sortErrors [OF sign trans])
    also have "\<dots> = filter (comparesEqual cmp a) (sortErrors cmp (filter (\<lambda>err. errorType err = t) errs'))"
      by (simp only: same)
    also have "\<dots> = filter (comparesEqual cmp a) (filter (\<lambda>err. errorType err = t) errs')"
      by (simp only: filter_equal_sortErrors [OF sign trans])
    finally show "filter (comparesEqual cmp a) (filter (\<lambda>err. errorType err = t) errs)
        = filter (comparesEqual cmp a) (filter (\<lambda>err. errorType err = t) errs')" .
  qed
qed

lemma constant_list_unique:
  "mset xs = mset ys \<Longrightarrow> (\<forall>a\<in>set xs. \<forall>b\<in>set xs. a = b) \<Longrightarrow> xs = ys"
proof (induction xs arbitrary: ys)
  case Nil
  then show ?case by simp
next
  case (Cons x xs)
  from Cons.prems(1) obtain y ys' where ys: "ys = y # ys'"
    by (cases ys) auto
  have "set (x # xs) = set (y # ys')"
    using Cons.prems(1) ys by (metis mset_eq_setD)
  then have "y \<in> set (x # xs)" by simp
  with Cons.prems(2) have head: "x = y" by auto
  with Cons.prems ys have "xs = ys'"
    by (intro Cons.IH) simp_all
  with head ys show ?case by simp
qed

lemma same_order_when_distinct:
  assumes sign: "\<forall>a b. (cmp a b < 0) = (0 < cmp b a)"
    and trans: "\<forall>a b c. cmp a b \<le> 0 \<longrightarrow> cmp b c \<le> 0 \<longrightarrow> cmp a c \<le> 0"
    and perm: "mset errs = mset errs'"
    and inj: "\<forall>e\<in>set errs. \<forall>e'\<in>set errs. errorType e = errorType e' \<longrightarrow>
                cmp (overrideName e) (overrideName e') = 0 \<longrightarrow> overrideName e = overrideName e'"
  shows "\<forall>t a. filter (comparesEqual cmp a) (filter (\<lambda>err. errorType err = t) errs)
               = filter (comparesEqual cmp a) (filter (\<lambda>err. errorType err = t) errs')"
proof (intro allI)
  fix t a
  let ?L = "filter (comparesEqual cmp a) (filter (\<lambda>err. errorType err = t) errs)"
  let ?L' = "filter (comparesEqual cmp a) (filter (\<lambda>err. errorType err = t) errs')"
  have m: "mset ?L = mset ?L'"
    using perm by simp
  have "e = e'" if e: "e \<in> set ?L" and e': "e' \<in> set ?L" for e e'
  proof -
    from e e' have ae: "cmp a (overrideName e) = 0" and ae': "cmp a (overrideName e') = 0"
      and mem: "e \<in> set errs" "e' \<in> set errs" and kind: "errorType e = errorType e'"
      by (simp_all add: comparesEqual_def)
    from sign have s1: "(cmp a (overrideName e) < 0) = (0 < cmp (overrideName e) a)"
      and s2: "(cmp a (overrideName e') < 0) = (0 < cmp (overrideName e') a)"
      and s3: "(cmp (overrideName e) (overrideName e') < 0) = (0 < cmp (overrideName e') (overrideName e))"
      by blast+
    from ae s1 have "cmp (overrideName e) a \<le> 0" by linarith
    with ae' trans have le1: "cmp (overrideName e) (overrideName e') \<le> 0"
      by (metis order_refl)
    from ae' s2 have "cmp (overrideName e') a \<le> 0" by linarith
    with ae trans have le2: "cmp (overrideName e') (overrideName e) \<le> 0"
      by (metis order_refl)
    from le1 le2 s3 have "cmp (overrideName e) (overrideName e') = 0" by linarith
    with inj mem kind have "overrideName e = overrideName e'" by blast
    with kind show ?thesis by simp
  qed
  then have "\<forall>e\<in>set ?L. \<forall>e'\<in>set ?L. e = e'" by blast
  with m show "?L = ?L'" by (rule constant_list_unique)
qed

lemma compareBytes_sign: "(compareBytes a b < 0) = (0 < compareBytes b a)"
  by (induction a b rule: compareBytes.induct) (auto simp: linorder_neq_iff)

lemma compareBytes_trans:
  "compareBytes a b \<le> 0 \<Longrightarrow> compareBytes b c \<le> 0 \<Longrightarrow> compareBytes a c \<le> 0"
proof (induction a b arbitrary: c rule: compareBytes.induct)
  case 1
  then show ?case by simp
next
  case (2 b bs)
  then show ?case by (cases c) auto
next
  case (3 a as)
  then show ?case by simp
next
  case (4 a as b bs)
  show ?case
  proof (cases c)
    case Nil
    with 4 show ?thesis by simp
  next
    case (Cons x xs)
    with 4 show ?thesis
      by (auto split: if_splits)
  qed
qed

lemma compareBytes_zero: "compareBytes a b = 0 \<Longrightarrow> a = b"
  by (induction a b rule: compareBytes.induct) (auto split: if_splits)

text \<open>
  C10, as amended. \<^verbatim>\<open>localeCompare\<close> is taken as a consistent comparator
  (the sign of \<open>localeCompare a b\<close> is opposite to that of \<open>localeCompare b a\<close>, and
  "not greater" is transitive). Two inputs that are permutations of each other, and in
  which the errors of one of the eight kinds whose names \<^verbatim>\<open>localeCompare\<close>
  treats as equal stand in the same order, give the same result and the same terminal
  output: after the
  separating empty line the groups of the eight kinds in the order of the calls, the
  errors of each group sorted by \<^verbatim>\<open>localeCompare\<close>. The sort is stable: within
  a group, the errors whose names compare equal to a given name are printed in their
  input order.
\<close>

theorem printValidationErrors_permutation:
  assumes sign: "\<forall>a b. (localeCompare a b < 0) = (0 < localeCompare b a)"
    and trans: "\<forall>a b c. localeCompare a b \<le> 0 \<longrightarrow> localeCompare b c \<le> 0 \<longrightarrow> localeCompare a c \<le> 0"
    and perm: "mset errs = mset errs'"
    and order: "\<forall>t\<in>set errorKinds. \<forall>a.
                  filter (comparesEqual localeCompare a) (filter (\<lambda>err. errorType err = t) errs)
                    = filter (comparesEqual localeCompare a) (filter (\<lambda>err. errorType err = t) errs')"
  shows "printValidationErrors localeCompare npmName errs w
       = printValidationErrors localeCompare npmName errs' w
       \<and> (errs \<noteq> [] \<longrightarrow>
            newOutput w (snd (printValidationErrors localeCompare npmName errs w))
              = ConsoleError plain ''''
                # concat (map (\<lambda>(t, m). groupLines localeCompare t m errs) (errorGroups npmName)))
       \<and> (\<forall>t. sorted_wrt (\<lambda>a b. localeCompare (overrideName a) (overrideName b) \<le> 0)
                 (sortErrors localeCompare (filter (\<lambda>err. errorType err = t) errs)))
       \<and> (\<forall>t a. filter (comparesEqual localeCompare a)
                     (sortErrors localeCompare (filter (\<lambda>err. errorType err = t) errs))
                 = filter (comparesEqual localeCompare a) (filter (\<lambda>err. errorType err = t) errs))"
proof (intro conjI allI impI)
  assume "errs \<noteq> []"
  then show "newOutput w (snd (printValidationErrors localeCompare npmName errs w))
      = ConsoleError plain ''''
        # concat (map (\<lambda>(t, m). groupLines localeCompare t m errs) (errorGroups npmName))"
    by (simp add: printValidationErrors_eq newOutput_append)
next
  fix t
  have tot: "\<And>a b. localeCompare a b \<le> 0 \<or> localeCompare b a \<le> 0"
    using sign by (metis less_le_not_le linorder_le_cases)
  have tr: "\<And>a b c. localeCompare a b \<le> 0 \<Longrightarrow> localeCompare b c \<le> 0 \<Longrightarrow> localeCompare a c \<le> 0"
    using trans by blast
  show "sorted_wrt (\<lambda>a b. localeCompare (overrideName a) (overrideName b) \<le> 0)
          (sortErrors localeCompare (filter (\<lambda>err. errorType err = t) errs))"
    by (rule sorted_sortErrors [OF tot tr])
next
  fix t a
  show "filter (comparesEqual localeCompare a)
          (sortErrors localeCompare (filter (\<lambda>err. errorType err = t) errs))
      = filter (comparesEqual localeCompare a) (filter (\<lambda>err. errorType err = t) errs)"
    by (rule filter_equal_sortErrors [OF sign trans])
next
  show "printValidationErrors localeCompare npmName errs w
       = printValidationErrors localeCompare npmName errs' w"
  proof (cases "errs = []")
    case True
    with perm have "errs' = []" by simp
    with True show ?thesis by simp
  next
    case False
    with perm have ne': "errs' \<noteq> []" by auto
    have group: "groupLines localeCompare t m errs = groupLines localeCompare t m errs'"
      if "t \<in> set errorKinds" for t m
    proof -
      from order that
      have "\<forall>a. filter (comparesEqual localeCompare a) (filter (\<lambda>err. errorType err = t) errs)
                     = filter (comparesEqual localeCompare a) (filter (\<lambda>err. errorType err = t) errs')"
        by blast
      from sortErrors_group_stable [OF sign trans perm this] show ?thesis
        by (simp add: groupLines_def)
    qed
    have groups: "map (\<lambda>(t, m). groupLines localeCompare t m errs) (errorGroups npmName)
        = map (\<lambda>(t, m). groupLines localeCompare t m errs') (errorGroups npmName)"
    proof (intro map_cong refl)
      fix g assume g: "g \<in> set (errorGroups npmName)"
      obtain t m where tm: "g = (t, m)" by (cases g)
      with g have "t \<in> set (map fst (errorGroups npmName))" by force
      then have "t \<in> set errorKinds" by (simp only: errorKinds_groups)
      from group [OF this] show "(case g of (t, m) \<Rightarrow> groupLines localeCompare t m errs)
          = (case g of (t, m) \<Rightarrow> groupLines localeCompare t m errs')"
        by (simp add: tm)
    qed
    have "mset (unprinted errs) = mset (unprinted errs')"
      using perm by (simp add: unprinted_def)
    then have len: "length (unprinted errs) = length (unprinted errs')"
      by (metis size_mset)
    then have join: "joinObjects (unprinted errs) = joinObjects (unprinted errs')"
      by (rule joinObjects_length)
    from len have nil: "(unprinted errs = []) = (unprinted errs' = [])"
      by (metis length_0_conv)
    show ?thesis
      using False ne' by (simp add: printValidationErrors_eq groups join nil)
  qed
qed

lemma compareBytes_refl: "compareBytes a a = 0"
  by (induction a) simp_all

lemma canonicalCompare_sign: "(canonicalCompare a b < 0) = (0 < canonicalCompare b a)"
  by (simp add: canonicalCompare_def compareBytes_sign)

lemma canonicalCompare_trans:
  "canonicalCompare a b \<le> 0 \<Longrightarrow> canonicalCompare b c \<le> 0 \<Longrightarrow> canonicalCompare a c \<le> 0"
  unfolding canonicalCompare_def by (rule compareBytes_trans)

lemma canonicalCompare_zero: "(canonicalCompare a b = 0) = (decompose a = decompose b)"
  unfolding canonicalCompare_def using compareBytes_zero compareBytes_refl by metis

lemma cafe_decomposed:
  "decompose cafePrecomposed = cafeDecomposed" "decompose cafeDecomposed = cafeDecomposed"
  "decompose ''b.js'' = ''b.js''" "cafeDecomposed \<noteq> ''b.js''"
  by (simp_all add: cafePrecomposed_def cafeDecomposed_def)

theorem printValidationErrors_permutation_witness:
  "canonicalCompare cafePrecomposed cafeDecomposed = 0
   \<and> printValidationErrors canonicalCompare ''rnw''
      [\<lparr>errorType = ''outOfDate'', overrideName = cafePrecomposed\<rparr>,
       \<lparr>errorType = ''outOfDate'', overrideName = ''b.js''\<rparr>,
       \<lparr>errorType = ''outOfDate'', overrideName = cafeDecomposed\<rparr>] emptyWorld
   = printValidationErrors canonicalCompare ''rnw''
      [\<lparr>errorType = ''outOfDate'', overrideName = ''b.js''\<rparr>,
       \<lparr>errorType = ''outOfDate'', overrideName = cafePrecomposed\<rparr>,
       \<lparr>errorType = ''outOfDate'', overrideName = cafeDecomposed\<rparr>] emptyWorld
   \<and> newOutput emptyWorld (snd (printValidationErrors canonicalCompare ''rnw''
      [\<lparr>errorType = ''outOfDate'', overrideName = cafePrecomposed\<rparr>,
       \<lparr>errorType = ''outOfDate'', overrideName = ''b.js''\<rparr>,
       \<lparr>errorType = ''outOfDate'', overrideName = cafeDecomposed\<rparr>] emptyWorld))
     = [ConsoleError plain '''', ConsoleError red (msgOutOfDate ''rnw''),
        ConsoleError plain '' - b.js'',
        ConsoleError plain ('' - '' @ cafePrecomposed),
        ConsoleError plain ('' - '' @ cafeDecomposed), ConsoleError plain '''']"
proof -
  let ?errs = "[\<lparr>errorType = ''outOfDate'', overrideName = cafePrecomposed\<rparr>,
       \<lparr>errorType = ''outOfDate'', overrideName = ''b.js''\<rparr>,
       \<lparr>errorType = ''outOfDate'', overrideName = cafeDecomposed\<rparr>]"
  let ?errs' = "[\<lparr>errorType = ''outOfDate'', overrideName = ''b.js''\<rparr>,
       \<lparr>errorType = ''outOfDate'', overrideName = cafePrecomposed\<rparr>,
       \<lparr>errorType = ''outOfDate'', overrideName = cafeDecomposed\<rparr>]"
  have sign: "\<forall>a b. (canonicalCompare a b < 0) = (0 < canonicalCompare b a)"
    by (simp add: canonicalCompare_sign)
  have trans: "\<forall>a b c. canonicalCompare a b \<le> 0 \<longrightarrow> canonicalCompare b c \<le> 0 \<longrightarrow> canonicalCompare a c \<le> 0"
    using canonicalCompare_trans by blast
  have perm: "mset ?errs = mset ?errs'" by simp
  have "\<forall>t a. filter (comparesEqual canonicalCompare a) (filter (\<lambda>err. errorType err = t) ?errs)
                     = filter (comparesEqual canonicalCompare a) (filter (\<lambda>err. errorType err = t) ?errs')"
    by (simp add: comparesEqual_def canonicalCompare_zero cafe_decomposed)
  then have order: "\<forall>t\<in>set errorKinds. \<forall>a.
                  filter (comparesEqual canonicalCompare a) (filter (\<lambda>err. errorType err = t) ?errs)
                    = filter (comparesEqual canonicalCompare a) (filter (\<lambda>err. errorType err = t) ?errs')"
    by blast
  have eq: "canonicalCompare cafePrecomposed cafeDecomposed = 0"
    by (simp add: canonicalCompare_zero cafe_decomposed)
  have out: "concat (map (\<lambda>(t, m). groupLines canonicalCompare t m ?errs) (errorGroups ''rnw''))
      = [ConsoleError red (msgOutOfDate ''rnw''),
        ConsoleError plain '' - b.js'',
        ConsoleError plain ('' - '' @ cafePrecomposed),
        ConsoleError plain ('' - '' @ cafeDecomposed), ConsoleError plain '''']"
    by (simp add: errorGroups_def groupLines_def sortErrors_def bullet_def canonicalCompare_def
          cafePrecomposed_def cafeDecomposed_def)
  note inst = printValidationErrors_permutation [OF sign trans perm order, of "''rnw''" emptyWorld]
  from inst have same: "printValidationErrors canonicalCompare ''rnw'' ?errs emptyWorld
      = printValidationErrors canonicalCompare ''rnw'' ?errs' emptyWorld"
    by (rule conjunct1)
  from inst have "?errs \<noteq> [] \<longrightarrow>
      newOutput emptyWorld (snd (printValidationErrors canonicalCompare ''rnw'' ?errs emptyWorld))
        = ConsoleError plain ''''
          # concat (map (\<lambda>(t, m). groupLines canonicalCompare t m ?errs) (errorGroups ''rnw''))"
    by (rule conjunct2 [THEN conjunct1])
  then have printed: "newOutput emptyWorld (snd (printValidationErrors canonicalCompare ''rnw'' ?errs emptyWorld))
      = ConsoleError plain '''' # [ConsoleError red (msgOutOfDate ''rnw''),
        ConsoleError plain '' - b.js'',
        ConsoleError plain ('' - '' @ cafePrecomposed),
        ConsoleError plain ('' - '' @ cafeDecomposed), ConsoleError plain '''']"
    unfolding out by simp
  from eq same printed show ?thesis by simp
qed

text \<open>
  The claim as stated fails: the two spellings of one name compare equal under
  \<open>canonicalCompare\<close>, the stable sort keeps them in input order, and the two
  orders of the same two errors print different lines.
\<close>

theorem printValidationErrors_permutation_counterexample:
  "mset [\<lparr>errorType = ''outOfDate'', overrideName = cafePrecomposed\<rparr>,
         \<lparr>errorType = ''outOfDate'', overrideName = cafeDecomposed\<rparr>]
     = mset [\<lparr>errorType = ''outOfDate'', overrideName = cafeDecomposed\<rparr>,
             \<lparr>errorType = ''outOfDate'', overrideName = cafePrecomposed\<rparr>]
   \<and> canonicalCompare cafePrecomposed cafeDecomposed = 0
   \<and> newOutput emptyWorld (snd (printValidationErrors canonicalCompare ''rnw''
        [\<lparr>errorType = ''outOfDate'', overrideName = cafePrecomposed\<rparr>,
         \<lparr>errorType = ''outOfDate'', overrideName = cafeDecomposed\<rparr>] emptyWorld))
     = [ConsoleError plain '''', ConsoleError red (msgOutOfDate ''rnw''),
        ConsoleError plain ('' - '' @ cafePrecomposed),
        ConsoleError plain ('' - '' @ cafeDecomposed), ConsoleError plain '''']
   \<and> newOutput emptyWorld (snd (printValidationErrors canonicalCompare ''rnw''
        [\<lparr>errorType = ''outOfDate'', overrideName = cafeDecomposed\<rparr>,
         \<lparr>errorType = ''outOfDate'', overrideName = cafePrecomposed\<rparr>] emptyWorld))
     = [ConsoleError plain '''', ConsoleError red (msgOutOfDate ''rnw''),
        ConsoleError plain ('' - '' @ cafeDecomposed),
        ConsoleError plain ('' - '' @ cafePrecomposed), ConsoleError plain '''']
   \<and> printValidationErrors canonicalCompare ''rnw''
        [\<lparr>errorType = ''outOfDate'', overrideName = cafePrecomposed\<rparr>,
         \<lparr>errorType = ''outOfDate'', overrideName = cafeDecomposed\<rparr>] emptyWorld
     \<noteq> printValidationErrors canonicalCompare ''rnw''
        [\<lparr>errorType = ''outOfDate'', overrideName = cafeDecomposed\<rparr>,
         \<lparr>errorType = ''outOfDate'', overrideName = cafePrecomposed\<rparr>] emptyWorld"
  by (simp add: printValidationErrors_eq errorGroups_def groupLines_def sortErrors_def
        canonicalCompare_def cafePrecomposed_def cafeDecomposed_def bullet_def newOutput_def
        emptyWorld_def unprinted_def errorKinds_def)

subsection \<open>spinnerGuard\<close>

text \<open>
  C7, as amended. spinnerGuard ends as the wrapped operation ends: with the value it
  returned and the state it left, or with the same thrown error, which is never
  swallowed. When the operation throws, the spinner is failed if it is still spinning
  and left as it is otherwise; either way it is not spinning afterwards.
\<close>

theorem spinnerGuard_rethrows:
  "fst (spinnerGuard fn w) = fst (fn w)
   \<and> (\<forall>v. fst (fn w) = Inr v \<longrightarrow> snd (spinnerGuard fn w) = snd (fn w))
   \<and> (\<forall>ex. fst (fn w) = Inl (Throw ex) \<longrightarrow>
          \<not> isSpinning (spinner (snd (spinnerGuard fn w)))
        \<and> snd (spinnerGuard fn w)
            = (if isSpinning (spinner (snd (fn w))) then ora_fail (snd (fn w)) else snd (fn w)))"
proof -
  obtain r w' where run: "fn w = (r, w')" by (cases "fn w")
  show ?thesis
  proof (cases r)
    case (Inr v)
    with run show ?thesis by (simp add: spinnerGuard_def)
  next
    case (Inl failed)
    show ?thesis
    proof (cases failed)
      case (Exit n)
      with run Inl show ?thesis by (simp add: spinnerGuard_def)
    next
      case (Throw ex)
      with run Inl have "spinnerGuard fn w
          = (Inl (Throw ex), if isSpinning (spinner w') then ora_fail w' else w')"
        by (simp add: spinnerGuard_def)
      with run Inl Throw show ?thesis by (simp add: ora_fail_def)
    qed
  qed
qed

theorem spinnerGuard_rethrows_witness:
  "spinnerGuard (\<lambda>w. (Inl (Throw ''ManifestNotFound'') :: unit result, w))
       (ora_start ''Validating overrides'' emptyWorld)
     = (Inl (Throw ''ManifestNotFound''),
        ora_fail (ora_start ''Validating overrides'' emptyWorld))
   \<and> spinnerGuard (\<lambda>w. (Inr (3::nat), w)) emptyWorld = (Inr 3, emptyWorld)"
proof -
  let ?fn = "\<lambda>w. (Inl (Throw ''ManifestNotFound'') :: unit result, w)"
  let ?w = "ora_start ''Validating overrides'' emptyWorld"
  have "isSpinning (spinner ?w)" by (simp add: ora_start_def)
  with spinnerGuard_rethrows [of ?fn ?w] have "spinnerGuard ?fn ?w = (Inl (Throw ''ManifestNotFound''), ora_fail ?w)"
    by (simp add: prod_eq_iff)
  moreover from spinnerGuard_rethrows [of "\<lambda>w. (Inr (3::nat), w)" emptyWorld]
  have "spinnerGuard (\<lambda>w. (Inr (3::nat), w)) emptyWorld = (Inr 3, emptyWorld)"
    by (simp add: prod_eq_iff)
  ultimately show ?thesis by simp
qed

text \<open>
  The claim as stated fails where it says that the spinner is failed before the error
  is thrown again: an operation that has already stopped the spinner and then throws
  leaves a terminal on which the spinner shows success and no failure.
\<close>

theorem spinnerGuard_fail_counterexample:
  "fst (lateFailure (ora_start ''Merging overrides'' emptyWorld)) = Inl (Throw ''EPIPE'')
   \<and> fst (spinnerGuard lateFailure (ora_start ''Merging overrides'' emptyWorld)) = Inl (Throw ''EPIPE'')
   \<and> stdio (snd (spinnerGuard lateFailure (ora_start ''Merging overrides'' emptyWorld)))
       = [OraSucceed ''Merging overrides'']
   \<and> OraFail ''Merging overrides''
       \<notin> set (stdio (snd (spinnerGuard lateFailure (ora_start ''Merging overrides'' emptyWorld))))"
  by (simp add: spinnerGuard_def lateFailure_def ora_succeed_def ora_start_def emptyWorld_def)

subsection \<open>The validate command\<close>

lemma groupLines_ConsoleError:
  "l \<in> set (groupLines cmp t m errs) \<Longrightarrow> \<exists>c s. l = ConsoleError c s"
  by (auto simp: groupLines_def Let_def bullet_def split: if_splits)

lemma OraSucceed_notin_groups:
  "OraSucceed s \<notin> set (concat (map (\<lambda>(t, m). groupLines cmp t m errs) gs))"
  by (auto dest: groupLines_ConsoleError)

lemma validateManifest_failed:
  "apiValidateManifest x opts = Inl failed \<Longrightarrow>
   newOutput w (snd (validateManifest x opts w))
     = (case failed of Throw ex \<Rightarrow> [OraFail ''Validating overrides''] | Exit n \<Rightarrow> [])"
  by (cases failed)
     (simp_all add: validateManifest_def spinnerGuard_def ora_start_def ora_fail_def newOutput_def)

lemma validateManifest_empty:
  "apiValidateManifest x opts = Inr [] \<Longrightarrow>
   validateManifest x opts w = (Inr (), ora_succeed (ora_start ''Validating overrides'' w))"
  by (simp add: validateManifest_def spinnerGuard_def)

lemma validateManifest_errors:
  assumes "apiValidateManifest x opts = Inr errs" and "errs \<noteq> []"
  shows "newOutput w (snd (validateManifest x opts w))
      = OraFail ''Validating overrides'' # ConsoleError plain ''''
        # concat (map (\<lambda>(t, m). groupLines (stringLocaleCompare x) t m errs)
                    (errorGroups (getNpmPackageName x)))"
    and "unprinted errs = [] \<Longrightarrow> fst (validateManifest x opts w) = Inr ()"
    and "unprinted errs = [] \<Longrightarrow> exitCode (snd (validateManifest x opts w)) = Some 1"
  using assms
  by (simp_all add: validateManifest_def spinnerGuard_def printValidationErrors_eq
        ora_start_def ora_fail_def newOutput_def)

text \<open>
  C3. The validate command reports success on the spinner exactly when
  \<^verbatim>\<open>Api.validateManifest\<close> returns the empty list, and then returns without
  touching the exit code. When the list is not empty (its errors being of the eight
  kinds, as the type of \<^verbatim>\<open>ValidationError\<close> says) the command fails the spinner,
  prints the errors, sets the exit code to 1 and returns normally: the findings are
  data and nothing is thrown.
\<close>

theorem validateManifest_reports:
  "(OraSucceed ''Validating overrides'' \<in> set (newOutput w (snd (validateManifest x opts w))))
     = (apiValidateManifest x opts = Inr [])
   \<and> (apiValidateManifest x opts = Inr [] \<longrightarrow>
        fst (validateManifest x opts w) = Inr ()
      \<and> exitCode (snd (validateManifest x opts w)) = exitCode w)
   \<and> (\<forall>errs. apiValidateManifest x opts = Inr errs \<and> errs \<noteq> []
              \<and> (\<forall>err\<in>set errs. errorType err \<in> set errorKinds) \<longrightarrow>
        fst (validateManifest x opts w) = Inr ()
      \<and> exitCode (snd (validateManifest x opts w)) = Some 1
      \<and> newOutput w (snd (validateManifest x opts w))
          = OraFail ''Validating overrides'' # ConsoleError plain ''''
            # concat (map (\<lambda>(t, m). groupLines (stringLocaleCompare x) t m errs)
                        (errorGroups (getNpmPackageName x))))"
proof (cases "apiValidateManifest x opts")
  case (Inl failed)
  then show ?thesis
    by (cases failed) (simp_all add: validateManifest_failed)
next
  case (Inr errs)
  show ?thesis
  proof (cases "errs = []")
    case True
    with Inr show ?thesis
      by (simp add: validateManifest_empty ora_succeed_def ora_start_def newOutput_def)
  next
    case False
    note out = validateManifest_errors(1) [OF Inr False, of w]
    have "OraSucceed ''Validating overrides''
        \<notin> set (newOutput w (snd (validateManifest x opts w)))"
      unfolding out by (auto dest: groupLines_ConsoleError)
    moreover have "errs \<noteq> [] \<and> (\<forall>err\<in>set errs. errorType err \<in> set errorKinds) \<longrightarrow>
        fst (validateManifest x opts w) = Inr ()
      \<and> exitCode (snd (validateManifest x opts w)) = Some 1"
      using validateManifest_errors(2,3) [OF Inr False, of w] by (simp add: unprinted_Nil)
    ultimately show ?thesis
      using Inr False out by simp
  qed
qed

theorem validateManifest_reports_witness:
  "validateManifest exampleExternals \<lparr>manifestPath = None, reactNativeVersion = None\<rparr> emptyWorld
     = (Inr (),
        \<lparr>stdio = [OraFail ''Validating overrides'', ConsoleError plain '''',
                  ConsoleError red (msgOutOfDate ''react-native-platform-override''),
                  ConsoleError plain '' - View.windows.js'', ConsoleError plain ''''],
         exitCode = Some 1,
         spinner = \<lparr>spinnerText = ''Validating overrides'', isSpinning = False\<rparr>,
         manifest = [], files = Map.empty, lockHolder = None, lockCalls = []\<rparr>)
   \<and> fst (validateManifest exampleExternals
            \<lparr>manifestPath = Some ''clean/overrides.json'', reactNativeVersion = None\<rparr> emptyWorld)
       = Inr ()
   \<and> stdio (snd (validateManifest exampleExternals
            \<lparr>manifestPath = Some ''clean/overrides.json'', reactNativeVersion = None\<rparr> emptyWorld))
       = [OraSucceed ''Validating overrides'']
   \<and> exitCode (snd (validateManifest exampleExternals
            \<lparr>manifestPath = Some ''clean/overrides.json'', reactNativeVersion = None\<rparr> emptyWorld))
       = None"
proof -
  let ?o1 = "\<lparr>manifestPath = None, reactNativeVersion = None\<rparr>"
  let ?o2 = "\<lparr>manifestPath = Some ''clean/overrides.json'', reactNativeVersion = None\<rparr>"
  let ?errs = "[\<lparr>errorType = ''outOfDate'', overrideName = ''View.windows.js''\<rparr>]"
  have a1: "apiValidateManifest exampleExternals ?o1 = Inr ?errs"
    by (simp add: exampleExternals_def)
  have a2: "apiValidateManifest exampleExternals ?o2 = Inr []"
    by (simp add: exampleExternals_def)
  have k: "\<forall>err\<in>set ?errs. errorType err \<in> set errorKinds"
    by (simp add: errorKinds_def)
  from validateManifest_reports [of emptyWorld exampleExternals ?o1] a1 k
  have r1: "fst (validateManifest exampleExternals ?o1 emptyWorld) = Inr ()"
    and e1: "exitCode (snd (validateManifest exampleExternals ?o1 emptyWorld)) = Some 1"
    by simp_all
  from validateManifest_reports [of emptyWorld exampleExternals ?o2] a2
  have r2: "fst (validateManifest exampleExternals ?o2 emptyWorld) = Inr ()"
    and e2: "exitCode (snd (validateManifest exampleExternals ?o2 emptyWorld)) = exitCode emptyWorld"
    and s2: "OraSucceed ''Validating overrides''
              \<in> set (newOutput emptyWorld (snd (validateManifest exampleExternals ?o2 emptyWorld)))"
    by simp_all
  have v1: "snd (validateManifest exampleExternals ?o1 emptyWorld)
     = \<lparr>stdio = [OraFail ''Validating overrides'', ConsoleError plain '''',
                  ConsoleError red (msgOutOfDate ''react-native-platform-override''),
                  ConsoleError plain '' - View.windows.js'', ConsoleError plain ''''],
         exitCode = Some 1,
         spinner = \<lparr>spinnerText = ''Validating overrides'', isSpinning = False\<rparr>,
         manifest = [], files = Map.empty, lockHolder = None, lockCalls = []\<rparr>"
    by (simp add: validateManifest_def spinnerGuard_def printValidationErrors_eq a1
          unprinted_def errorKinds_def errorGroups_def groupLines_def sortErrors_def bullet_def
          ora_start_def ora_fail_def emptyWorld_def
          exampleExternals_def [THEN arg_cong [where f = getNpmPackageName], simplified]
          exampleExternals_def [THEN arg_cong [where f = stringLocaleCompare], simplified])
  have v2: "stdio (snd (validateManifest exampleExternals ?o2 emptyWorld))
     = [OraSucceed ''Validating overrides'']"
    by (simp add: validateManifest_empty [OF a2] ora_succeed_def ora_start_def emptyWorld_def)
  from r1 v1 r2 v2 e2 show ?thesis
    by (simp add: prod_eq_iff emptyWorld_def)
qed

subsection \<open>The manifest store and the add and remove commands\<close>

lemma hasOverride_filter_self [simp]:
  "\<not> hasOverride name (filter (\<lambda>e. entryName e \<noteq> name) m)"
  by (auto simp: hasOverride_def)

lemma filter_absent:
  "\<not> hasOverride name m \<Longrightarrow> filter (\<lambda>e. entryName e \<noteq> name) m = m"
  by (induction m) (auto simp: hasOverride_def)

lemma hasOverride_manifestAdd [simp]: "hasOverride (entryName ov) (manifestAdd ov m)"
  by (auto simp: manifestAdd_def hasOverride_def image_iff)

lemma names_manifestAdd:
  "map entryName (manifestAdd ov m)
     = (if hasOverride (entryName ov) m then map entryName m else map entryName m @ [entryName ov])"
  by (induction m) (auto simp: manifestAdd_def hasOverride_def)

lemma distinct_manifestAdd:
  "distinct (map entryName m) \<Longrightarrow> distinct (map entryName (manifestAdd ov m))"
  by (simp add: names_manifestAdd) (simp add: hasOverride_def)

lemma mem_manifestAdd: "ov \<in> set (manifestAdd ov m)"
  by (auto simp: manifestAdd_def hasOverride_def image_iff)

lemma count_distinct_names:
  "distinct (map entryName m) \<Longrightarrow> hasOverride name m \<Longrightarrow>
   length (filter (\<lambda>e. entryName e = name) m) = 1"
proof (induction m)
  case Nil
  then show ?case by (simp add: hasOverride_def)
next
  case (Cons e m)
  show ?case
  proof (cases "entryName e = name")
    case True
    with Cons.prems have "name \<notin> set (map entryName m)" by auto
    then have "filter (\<lambda>e. entryName e = name) m = []"
      by (induction m) auto
    with True show ?thesis by simp
  next
    case False
    with Cons show ?thesis by (simp add: hasOverride_def)
  qed
qed

lemma manifestAdd_idem: "manifestAdd ov (manifestAdd ov m) = manifestAdd ov m"
proof -
  have "map (\<lambda>e. if entryName e = entryName ov then ov else e) (manifestAdd ov m) = manifestAdd ov m"
    by (induction m) (auto simp: manifestAdd_def hasOverride_def)
  then show ?thesis
    using hasOverride_manifestAdd [of ov m] by (subst manifestAdd_def) simp
qed



lemma readded_idem: "readded name ov (readded name ov m) = readded name ov m"
proof (cases "entryName ov = name")
  case True
  have "manifestAdd ov (filter (\<lambda>e. entryName e \<noteq> name) m)
      = filter (\<lambda>e. entryName e \<noteq> name) m @ [ov]"
    using True hasOverride_filter_self [of name m] by (simp add: manifestAdd_def)
  then show ?thesis using True by (simp add: readded_def)
next
  case False
  let ?m0 = "filter (\<lambda>e. entryName e \<noteq> name) m"
  have "\<not> hasOverride name (manifestAdd ov ?m0)"
    using False by (auto simp: manifestAdd_def hasOverride_def)
  then have "filter (\<lambda>e. entryName e \<noteq> name) (manifestAdd ov ?m0) = manifestAdd ov ?m0"
    by (rule filter_absent)
  then show ?thesis by (simp add: readded_def manifestAdd_idem)
qed

lemma addOverride_eq:
  assumes "findManifest x (pathDirname x p) = Inr mp"
    and "promptForOverrideDetails x = Inr d"
    and "overrideFromDetails x p d = Inr ov"
  shows "fst (addOverride x p w) = Inr ()"
    and "manifest (snd (addOverride x p w))
       = readded (pathRelative x (pathDirname x mp) (pathResolve x p)) ov (manifest w)"
  using assms
  by (simp_all add: addOverride_def Let_def spinnerGuard_def apiAddOverride_def apiRemoveOverride_def
        manifestRemove_def readded_def ora_succeed_def ora_start_def console_warn_def)

text \<open>
  C4. On a manifest whose names are unique, when the manifest is found, the prompt is
  answered and the override is built, the add command returns normally and leaves a
  manifest that holds the new override, holds exactly one entry of its name (an entry
  of that name that was there before is replaced, not duplicated), and still has unique
  names. Adding the same override again leaves the manifest as it is.
\<close>

theorem addOverride_replaces:
  assumes found: "findManifest x (pathDirname x p) = Inr mp"
    and prompt: "promptForOverrideDetails x = Inr d"
    and built: "overrideFromDetails x p d = Inr ov"
    and uniq: "distinct (map entryName (manifest w))"
  shows "fst (addOverride x p w) = Inr ()
       \<and> ov \<in> set (manifest (snd (addOverride x p w)))
       \<and> length (filter (\<lambda>e. entryName e = entryName ov) (manifest (snd (addOverride x p w)))) = 1
       \<and> distinct (map entryName (manifest (snd (addOverride x p w))))
       \<and> manifest (snd (addOverride x p (snd (addOverride x p w))))
           = manifest (snd (addOverride x p w))"
proof -
  let ?name = "pathRelative x (pathDirname x mp) (pathResolve x p)"
  note m = addOverride_eq(2) [OF found prompt built]
  have d: "distinct (map entryName (readded ?name ov (manifest w)))"
    unfolding readded_def using uniq by (intro distinct_manifestAdd) (simp add: distinct_map_filter)
  have "hasOverride (entryName ov) (readded ?name ov (manifest w))"
    by (simp add: readded_def)
  with d have "length (filter (\<lambda>e. entryName e = entryName ov) (readded ?name ov (manifest w))) = 1"
    by (rule count_distinct_names)
  moreover have "ov \<in> set (readded ?name ov (manifest w))"
    by (simp add: readded_def mem_manifestAdd)
  ultimately show ?thesis
    using d by (simp add: m addOverride_eq(1) [OF found prompt built] readded_idem)
qed

theorem addOverride_replaces_witness:
  "fst (addOverride exampleExternals ''View.windows.js''
          (emptyWorld\<lparr>manifest := [viewEntry ''0.61.0'', textEntry]\<rparr>)) = Inr ()
   \<and> manifest (snd (addOverride exampleExternals ''View.windows.js''
          (emptyWorld\<lparr>manifest := [viewEntry ''0.61.0'', textEntry]\<rparr>)))
       = [textEntry, viewEntry ''0.62.0'']
   \<and> length (filter (\<lambda>e. entryName e = ''View.windows.js'')
         (manifest (snd (addOverride exampleExternals ''View.windows.js''
            (emptyWorld\<lparr>manifest := [viewEntry ''0.61.0'', textEntry]\<rparr>))))) = 1"
proof -
  let ?w = "emptyWorld\<lparr>manifest := [viewEntry ''0.61.0'', textEntry]\<rparr>"
  let ?d = "\<lparr>detailsType = patch, detailsBaseFile = Some ''Libraries/View.js'',
             detailsIssue = None, detailsComment = None\<rparr>"
  have found: "findManifest exampleExternals (pathDirname exampleExternals ''View.windows.js'')
      = Inr ''/repo/overrides.json''"
    by (simp add: exampleExternals_def)
  have prompt: "promptForOverrideDetails exampleExternals = Inr ?d"
    by (simp add: exampleExternals_def)
  have built: "overrideFromDetails exampleExternals ''View.windows.js'' ?d = Inr (viewEntry ''0.62.0'')"
    by (simp add: exampleExternals_def viewEntry_def)
  have uniq: "distinct (map entryName (manifest ?w))"
    by (simp add: viewEntry_def textEntry_def)
  have name: "entryName (viewEntry ''0.62.0'') = ''View.windows.js''"
    by (simp add: viewEntry_def)
  have m: "manifest (snd (addOverride exampleExternals ''View.windows.js'' ?w))
      = [textEntry, viewEntry ''0.62.0'']"
    unfolding addOverride_eq(2) [OF found prompt built]
    by (simp add: exampleExternals_def readded_def manifestAdd_def hasOverride_def
          viewEntry_def textEntry_def)
  from addOverride_replaces [OF found prompt built uniq] m name show ?thesis
    by simp
qed

lemma apiRemoveOverride_absent:
  "\<not> hasOverride name (manifest w) \<Longrightarrow> apiRemoveOverride name w = (False, w)"
  by (simp add: apiRemoveOverride_def manifestRemove_def filter_absent)

text \<open>
  C5. Removing a name that no entry has returns false and changes nothing; removing a
  name that an entry has returns true and leaves the manifest without an entry of that
  name, the other entries kept in order. The remove command decides on that boolean:
  on true it prints that the override was removed and returns, on false it prints that
  the override could not be removed and exits with code 1.
\<close>

theorem removeOverride_reports:
  "(\<not> hasOverride name (manifest w) \<longrightarrow> apiRemoveOverride name w = (False, w))
   \<and> (hasOverride name (manifest w) \<longrightarrow>
        fst (apiRemoveOverride name w) = True
      \<and> \<not> hasOverride name (manifest (snd (apiRemoveOverride name w)))
      \<and> manifest (snd (apiRemoveOverride name w)) = filter (\<lambda>e. entryName e \<noteq> name) (manifest w))
   \<and> (\<forall>mp. findManifest x (pathDirname x p) = Inr mp \<longrightarrow>
        removeOverride x p w
          = (let name' = pathRelative x (pathDirname x mp) (pathResolve x p)
             in if fst (apiRemoveOverride name' w)
                then (Inr (), console_log greenBright ''Override successfully removed''
                                (snd (apiRemoveOverride name' w)))
                else (Inl (Exit 1),
                      console_error red ''Could not remove override. Is it part of the manifest?'' w)))"
proof -
  have cli: "removeOverride x p w
          = (let name' = pathRelative x (pathDirname x mp) (pathResolve x p)
             in if fst (apiRemoveOverride name' w)
                then (Inr (), console_log greenBright ''Override successfully removed''
                                (snd (apiRemoveOverride name' w)))
                else (Inl (Exit 1),
                      console_error red ''Could not remove override. Is it part of the manifest?'' w))"
    if "findManifest x (pathDirname x p) = Inr mp" for mp
  proof (cases "hasOverride (pathRelative x (pathDirname x mp) (pathResolve x p)) (manifest w)")
    case True
    with that show ?thesis
      by (simp add: removeOverride_def Let_def apiRemoveOverride_def manifestRemove_def)
  next
    case False
    with that show ?thesis
      by (simp add: removeOverride_def Let_def apiRemoveOverride_absent)
  qed
  show ?thesis
    using cli by (simp add: apiRemoveOverride_absent) (simp add: apiRemoveOverride_def manifestRemove_def)
qed

theorem removeOverride_reports_witness:
  "removeOverride exampleExternals ''Image.windows.js''
       (emptyWorld\<lparr>manifest := [viewEntry ''0.62.0'', textEntry]\<rparr>)
     = (Inl (Exit 1),
        console_error red ''Could not remove override. Is it part of the manifest?''
          (emptyWorld\<lparr>manifest := [viewEntry ''0.62.0'', textEntry]\<rparr>))
   \<and> removeOverride exampleExternals ''View.windows.js''
       (emptyWorld\<lparr>manifest := [viewEntry ''0.62.0'', textEntry]\<rparr>)
     = (Inr (),
        console_log greenBright ''Override successfully removed''
          (emptyWorld\<lparr>manifest := [textEntry]\<rparr>))"
proof -
  let ?w = "emptyWorld\<lparr>manifest := [viewEntry ''0.62.0'', textEntry]\<rparr>"
  have found: "findManifest exampleExternals (pathDirname exampleExternals q) = Inr ''/repo/overrides.json''" for q
    by (simp add: exampleExternals_def)
  have n1: "pathRelative exampleExternals (pathDirname exampleExternals ''/repo/overrides.json'')
              (pathResolve exampleExternals ''Image.windows.js'') = ''Image.windows.js''"
    and n2: "pathRelative exampleExternals (pathDirname exampleExternals ''/repo/overrides.json'')
              (pathResolve exampleExternals ''View.windows.js'') = ''View.windows.js''"
    by (simp_all add: exampleExternals_def)
  have absent: "\<not> hasOverride ''Image.windows.js'' (manifest ?w)"
    and present: "hasOverride ''View.windows.js'' (manifest ?w)"
    by (simp_all add: hasOverride_def viewEntry_def textEntry_def)
  have rest: "filter (\<lambda>e. entryName e \<noteq> ''View.windows.js'') (manifest ?w) = [textEntry]"
    by (simp add: viewEntry_def textEntry_def)
  from removeOverride_reports [of "''Image.windows.js''" ?w exampleExternals "''Image.windows.js''"]
    absent found n1
  have r1: "removeOverride exampleExternals ''Image.windows.js'' ?w
     = (Inl (Exit 1),
        console_error red ''Could not remove override. Is it part of the manifest?'' ?w)"
    by (simp add: Let_def)
  from removeOverride_reports [of "''View.windows.js''" ?w exampleExternals "''View.windows.js''"]
    present found n2 rest
  have r2: "removeOverride exampleExternals ''View.windows.js'' ?w
     = (Inr (),
        console_log greenBright ''Override successfully removed''
          (snd (apiRemoveOverride ''View.windows.js'' ?w)))"
    by (simp add: Let_def)
  have "snd (apiRemoveOverride ''View.windows.js'' ?w) = emptyWorld\<lparr>manifest := [textEntry]\<rparr>"
    using rest by (simp add: apiRemoveOverride_def manifestRemove_def)
  with r1 r2 show ?thesis by simp
qed

subsection \<open>The upgrade engine and the upgrade command\<close>

lemma mergeEntry_files:
  "files w' (entryName e) = files w (entryName e) \<Longrightarrow> mergeEntry x v w' e = mergeEntry x v w e"
  by (simp add: mergeEntry_def split: option.splits)

lemma upgradeEntries_Cons_snd:
  "snd (upgradeEntries x v allow listener i n (a # es) w)
     = (case mergeEntry x v (listener i n w) a of
          None \<Rightarrow> listener i n w
        | Some (merged, c) \<Rightarrow>
            snd (upgradeEntries x v allow listener (Suc i) n es
                   (if c \<and> \<not> allow then listener i n w
                    else writeMerged (entryName a) v merged (listener i n w))))"
  by (simp add: Let_def split: option.splits prod.splits sum.splits)

lemma upgradeEntries_Cons_fst:
  "fst (upgradeEntries x v allow listener i n (a # es) w)
     = (case mergeEntry x v (listener i n w) a of
          None \<Rightarrow> Inl (Throw ''ENOENT'')
        | Some (merged, c) \<Rightarrow>
            (case fst (upgradeEntries x v allow listener (Suc i) n es
                         (if c \<and> \<not> allow then listener i n w
                          else writeMerged (entryName a) v merged (listener i n w))) of
               Inl failed \<Rightarrow> Inl failed
             | Inr results \<Rightarrow> Inr (\<lparr>resultName = entryName a, hasConflicts = c\<rparr> # results)))"
  by (simp add: Let_def split: option.splits prod.splits sum.splits)

declare upgradeEntries.simps(2) [simp del]

lemma writeMerged_other:
  "name \<noteq> name' \<Longrightarrow>
   files (writeMerged name' v merged w) name = files w name
   \<and> entriesNamed name (writeMerged name' v merged w) = entriesNamed name w"
proof -
  assume ne: "name \<noteq> name'"
  have "filter (\<lambda>e. entryName e = name)
          (map (\<lambda>e. if entryName e = name' then e\<lparr>baseVersion := Some v\<rparr> else e) m)
      = filter (\<lambda>e. entryName e = name) m" for m
    using ne by (induction m) auto
  with ne show ?thesis
    by (simp add: writeMerged_def entriesNamed_def)
qed

lemma upgradeEntries_frame:
  assumes keeps: "keepsStore listener"
  shows "name \<notin> set (map entryName es) \<Longrightarrow>
     files (snd (upgradeEntries x v allow listener i n es w)) name = files w name
     \<and> entriesNamed name (snd (upgradeEntries x v allow listener i n es w)) = entriesNamed name w"
proof (induction es arbitrary: w i)
  case Nil
  then show ?case by simp
next
  case (Cons a es)
  let ?w1 = "listener i n w"
  have w1: "files ?w1 = files w" "entriesNamed name ?w1 = entriesNamed name w"
    using keeps by (simp_all add: keepsStore_def entriesNamed_def)
  show ?case
  proof (cases "mergeEntry x v ?w1 a")
    case None
    with w1 show ?thesis by (simp add: upgradeEntries_Cons_snd)
  next
    case (Some mc)
    obtain merged c where mc: "mc = (merged, c)" by (cases mc)
    let ?w2 = "if c \<and> \<not> allow then ?w1 else writeMerged (entryName a) v merged ?w1"
    from Cons.prems have ne: "name \<noteq> entryName a" and rest: "name \<notin> set (map entryName es)"
      by auto
    have w2: "files ?w2 name = files w name \<and> entriesNamed name ?w2 = entriesNamed name w"
      using w1 writeMerged_other [OF ne, of v merged ?w1] by simp
    have "snd (upgradeEntries x v allow listener i n (a # es) w)
        = snd (upgradeEntries x v allow listener (Suc i) n es ?w2)"
      using Some mc by (simp add: upgradeEntries_Cons_snd)
    with Cons.IH [OF rest, of "Suc i" ?w2] w2
    show ?thesis by simp
  qed
qed

lemma writeMerged_same:
  "files (writeMerged name v merged w) name = Some merged
   \<and> entriesNamed name (writeMerged name v merged w)
       = map (\<lambda>e. e\<lparr>baseVersion := Some v\<rparr>) (entriesNamed name w)"
proof -
  have "filter (\<lambda>e. entryName e = name)
          (map (\<lambda>e. if entryName e = name then e\<lparr>baseVersion := Some v\<rparr> else e) m)
      = map (\<lambda>e. e\<lparr>baseVersion := Some v\<rparr>) (filter (\<lambda>e. entryName e = name) m)" for m
    by (induction m) auto
  then show ?thesis
    by (simp add: writeMerged_def entriesNamed_def)
qed

lemma upgradeEntries_entry:
  assumes keeps: "keepsStore listener"
  shows "distinct (map entryName es) \<Longrightarrow> e \<in> set es \<Longrightarrow>
     mergeEntry x v w e = Some (merged, c) \<Longrightarrow>
     entryOutcome v allow e merged c w (upgradeEntries x v allow listener i n es w)"
proof (induction es arbitrary: w i)
  case Nil
  then show ?case by simp
next
  case (Cons a es)
  let ?name = "entryName e"
  let ?w1 = "listener i n w"
  let ?R = "upgradeEntries x v allow listener i n (a # es) w"
  let ?upd = "map (\<lambda>e. e\<lparr>baseVersion := Some v\<rparr>)"
  have w1: "files ?w1 = files w" "entriesNamed ?name ?w1 = entriesNamed ?name w"
    using keeps by (simp_all add: keepsStore_def entriesNamed_def)
  then have m1: "mergeEntry x v ?w1 e = Some (merged, c)"
    using Cons.prems(3) mergeEntry_files [of ?w1 e w x v] by simp
  from Cons.prems(1) have dist: "distinct (map entryName es)"
    and a_new: "entryName a \<notin> set (map entryName es)" by auto
  show ?case
  proof (cases "a = e")
    case True
    define w2 where "w2 = (if c \<and> \<not> allow then ?w1 else writeMerged ?name v merged ?w1)"
    let ?rest = "upgradeEntries x v allow listener (Suc i) n es w2"
    have w2_gated: "files w2 ?name = files w ?name \<and> entriesNamed ?name w2 = entriesNamed ?name w"
      if "c \<and> \<not> allow"
      using that w1 by (simp add: w2_def)
    have w2_written: "files w2 ?name = Some merged \<and> entriesNamed ?name w2 = ?upd (entriesNamed ?name w)"
      if "\<not> (c \<and> \<not> allow)"
    proof -
      from that have "w2 = writeMerged ?name v merged ?w1"
        unfolding w2_def by (rule if_not_P)
      with w1 writeMerged_same [of ?name v merged ?w1] show ?thesis by simp
    qed
    from a_new True have "?name \<notin> set (map entryName es)" by simp
    note frame = upgradeEntries_frame [OF keeps this, of x v allow "Suc i" n w2]
    have s: "snd ?R = snd ?rest"
      using True m1 by (simp add: upgradeEntries_Cons_snd w2_def)
    have f: "fst ?R = (case fst ?rest of Inl failed \<Rightarrow> Inl failed
        | Inr results \<Rightarrow> Inr (\<lparr>resultName = ?name, hasConflicts = c\<rparr> # results))"
      using True m1 by (simp add: upgradeEntries_Cons_fst w2_def)
    have listed: "\<lparr>resultName = ?name, hasConflicts = c\<rparr> \<in> set rs" if "fst ?R = Inr rs" for rs
      using that unfolding f by (auto split: sum.splits)
    show ?thesis
      unfolding entryOutcome_def s
    proof (intro conjI impI allI)
      assume g: "c \<and> \<not> allow"
      from frame w2_gated [OF g] show "files (snd ?rest) ?name = files w ?name"
        and "entriesNamed ?name (snd ?rest) = entriesNamed ?name w"
        by simp_all
    next
      fix rs assume r: "fst ?R = Inr rs"
      from listed [OF r] show "\<lparr>resultName = ?name, hasConflicts = c\<rparr> \<in> set rs" .
      assume ng: "\<not> (c \<and> \<not> allow)"
      from frame w2_written [OF ng] show "files (snd ?rest) ?name = Some merged"
        and "entriesNamed ?name (snd ?rest) = ?upd (entriesNamed ?name w)"
        by simp_all
    qed
  next
    case False
    with Cons.prems(2) have e_in: "e \<in> set es" by simp
    then have "?name \<in> set (map entryName es)" by simp
    with a_new have ne: "?name \<noteq> entryName a" by metis
    show ?thesis
    proof (cases "mergeEntry x v ?w1 a")
      case None
      then have s: "snd ?R = ?w1" and f: "fst ?R = Inl (Throw ''ENOENT'')"
        by (simp_all add: upgradeEntries_Cons_snd upgradeEntries_Cons_fst)
      show ?thesis
        unfolding entryOutcome_def s f using w1 by simp
    next
      case (Some mc)
      obtain merged' c' where mc: "mc = (merged', c')" by (cases mc)
      define w2 where "w2 = (if c' \<and> \<not> allow then ?w1 else writeMerged (entryName a) v merged' ?w1)"
      let ?rest = "upgradeEntries x v allow listener (Suc i) n es w2"
      have w2: "files w2 ?name = files w ?name" "entriesNamed ?name w2 = entriesNamed ?name w"
        using w1 writeMerged_other [OF ne, of v merged' ?w1] by (simp_all add: w2_def)
      then have "mergeEntry x v w2 e = Some (merged, c)"
        using Cons.prems(3) mergeEntry_files [of w2 e w x v] by simp
      from Cons.IH [OF dist e_in this]
      have IH: "entryOutcome v allow e merged c w2 ?rest" .
      have s: "snd ?R = snd ?rest"
        using Some mc by (simp add: upgradeEntries_Cons_snd w2_def)
      have f: "fst ?R = (case fst ?rest of Inl failed \<Rightarrow> Inl failed
          | Inr results \<Rightarrow> Inr (\<lparr>resultName = entryName a, hasConflicts = c'\<rparr> # results))"
        using Some mc by (simp add: upgradeEntries_Cons_fst w2_def)
      have listed: "\<exists>rs'. fst ?rest = Inr rs' \<and> set rs' \<subseteq> set rs" if "fst ?R = Inr rs" for rs
        using that unfolding f by (auto split: sum.splits)
      show ?thesis
        unfolding entryOutcome_def
      proof (intro conjI impI allI)
        assume g: "c \<and> \<not> allow"
        from IH g have "files (snd ?rest) ?name = files w2 ?name"
          and "entriesNamed ?name (snd ?rest) = entriesNamed ?name w2"
          unfolding entryOutcome_def by blast+
        then show "files (snd ?R) ?name = files w ?name"
          and "entriesNamed ?name (snd ?R) = entriesNamed ?name w"
          unfolding s using w2 by simp_all
      next
        fix rs assume r: "fst ?R = Inr rs"
        from listed [OF r] obtain rs' where rs': "fst ?rest = Inr rs'" "set rs' \<subseteq> set rs" by blast
        from IH rs'(1) have in': "\<lparr>resultName = ?name, hasConflicts = c\<rparr> \<in> set rs'"
          unfolding entryOutcome_def by blast
        with rs'(2) show "\<lparr>resultName = ?name, hasConflicts = c\<rparr> \<in> set rs" by blast
        assume ng: "\<not> (c \<and> \<not> allow)"
        from IH rs'(1) ng have "files (snd ?rest) ?name = Some merged"
          and "entriesNamed ?name (snd ?rest) = ?upd (entriesNamed ?name w2)"
          unfolding entryOutcome_def by blast+
        then show "files (snd ?R) ?name = Some merged"
          and "entriesNamed ?name (snd ?R) = ?upd (entriesNamed ?name w)"
          unfolding s using w2 by simp_all
      qed
    qed
  qed
qed

lemma keepsStore_progressListener: "keepsStore progressListener"
  by (simp add: keepsStore_def progressListener_def ora_text_def)

lemma entriesNamed_unique:
  "distinct (map entryName (manifest w)) \<Longrightarrow> e \<in> set (manifest w) \<Longrightarrow>
   entriesNamed (entryName e) w = [e]"
proof -
  have "distinct (map entryName m) \<Longrightarrow> e \<in> set m \<Longrightarrow> filter (\<lambda>e'. entryName e' = entryName e) m = [e]" for m
  proof (induction m)
    case Nil
    then show ?case by simp
  next
    case (Cons a m)
    show ?case
    proof (cases "a = e")
      case True
      with Cons.prems have "entryName e \<notin> set (map entryName m)" by simp
      then have "filter (\<lambda>e'. entryName e' = entryName e) m = []"
        by (induction m) auto
      with True show ?thesis by simp
    next
      case False
      with Cons.prems have "e \<in> set m" by simp
      then have "entryName e \<in> set (map entryName m)" by simp
      with Cons.prems have "entryName a \<noteq> entryName e" by (metis distinct.simps(2) list.simps(9))
      with Cons \<open>e \<in> set m\<close> show ?thesis by simp
    qed
  qed
  then show "distinct (map entryName (manifest w)) \<Longrightarrow> e \<in> set (manifest w) \<Longrightarrow>
   entriesNamed (entryName e) w = [e]"
    by (simp add: entriesNamed_def)
qed

lemma apiUpgradeOverrides_entry:
  assumes keeps: "keepsStore listener"
    and uniq: "distinct (map entryName (manifest w))"
    and entry: "e \<in> set (manifest w)"
    and stale: "outOfDate x (targetVersion x opts) e"
    and merge: "mergeEntry x (targetVersion x opts) w e = Some (merged, c)"
  shows "entryOutcome (targetVersion x opts) (allowConflicts opts) e merged c w
           (apiUpgradeOverrides x opts listener w)"
proof -
  let ?stale = "filter (outOfDate x (targetVersion x opts)) (manifest w)"
  have "distinct (map entryName ?stale)"
    using uniq by (simp add: distinct_map_filter)
  moreover have "e \<in> set ?stale"
    using entry stale by simp
  ultimately show ?thesis
    unfolding apiUpgradeOverrides_def Let_def
    using merge by (rule upgradeEntries_entry [OF keeps])
qed

lemma printUpgradeStats_store:
  "files (printUpgradeStats rs allow w) = files w"
  "manifest (printUpgradeStats rs allow w) = manifest w"
  by (simp_all add: printUpgradeStats_def Let_def console_log_def)

lemma upgrade_store:
  "files (snd (upgrade x opts w))
     = files (snd (apiUpgradeOverrides x opts progressListener (ora_start ''Merging overrides'' w)))"
  "manifest (snd (upgrade x opts w))
     = manifest (snd (apiUpgradeOverrides x opts progressListener (ora_start ''Merging overrides'' w)))"
  "fst (upgrade x opts w)
     = (case fst (apiUpgradeOverrides x opts progressListener (ora_start ''Merging overrides'' w)) of
          Inl failed \<Rightarrow> Inl failed | Inr rs \<Rightarrow> Inr ())"
proof -
  obtain r w' where R: "apiUpgradeOverrides x opts progressListener (ora_start ''Merging overrides'' w) = (r, w')"
    by (cases "apiUpgradeOverrides x opts progressListener (ora_start ''Merging overrides'' w)")
  have "files (snd (upgrade x opts w)) = files w' \<and> manifest (snd (upgrade x opts w)) = manifest w'
      \<and> fst (upgrade x opts w) = (case r of Inl failed \<Rightarrow> Inl failed | Inr rs \<Rightarrow> Inr ())"
  proof (cases r)
    case (Inl failed)
    with R show ?thesis
      by (cases failed) (simp_all add: upgrade_def spinnerGuard_def ora_fail_def)
  next
    case (Inr rs)
    with R show ?thesis
      by (simp add: upgrade_def spinnerGuard_def printUpgradeStats_store ora_succeed_def)
  qed
  with R show "files (snd (upgrade x opts w))
     = files (snd (apiUpgradeOverrides x opts progressListener (ora_start ''Merging overrides'' w)))"
  "manifest (snd (upgrade x opts w))
     = manifest (snd (apiUpgradeOverrides x opts progressListener (ora_start ''Merging overrides'' w)))"
  "fst (upgrade x opts w)
     = (case fst (apiUpgradeOverrides x opts progressListener (ora_start ''Merging overrides'' w)) of
          Inl failed \<Rightarrow> Inl failed | Inr rs \<Rightarrow> Inr ())"
    by simp_all
qed

lemma ora_start_store:
  "files (ora_start t w) = files w"
  "manifest (ora_start t w) = manifest w"
  "entriesNamed name (ora_start t w) = entriesNamed name w"
  by (simp_all add: ora_start_def entriesNamed_def)

lemma ora_start_mergeEntry: "mergeEntry x v (ora_start t w) e = mergeEntry x v w e"
  by (rule mergeEntry_files) (simp add: ora_start_def)

text \<open>
  C2. In a run with allowConflicts false, on a manifest with unique names and with a
  progress listener that leaves files and manifest alone, an out-of-date entry whose
  merge reports conflicts keeps its override file content and stays in the manifest as
  it was, base version included, whether the run ends normally or not; when the engine
  returns its result list, the list holds the entry with hasConflicts true. The same
  holds for the files and the manifest the upgrade command of Cli.ts leaves.
\<close>

theorem upgrade_conflicts_gated:
  assumes keeps: "keepsStore listener"
    and uniq: "distinct (map entryName (manifest w))"
    and gate: "\<not> allowConflicts opts"
    and entry: "e \<in> set (manifest w)"
    and stale: "outOfDate x (targetVersion x opts) e"
    and conflict: "mergeEntry x (targetVersion x opts) w e = Some (merged, True)"
  shows "files (snd (apiUpgradeOverrides x opts listener w)) (entryName e) = files w (entryName e)
       \<and> entriesNamed (entryName e) (snd (apiUpgradeOverrides x opts listener w)) = [e]
       \<and> (\<forall>rs. fst (apiUpgradeOverrides x opts listener w) = Inr rs \<longrightarrow>
             \<lparr>resultName = entryName e, hasConflicts = True\<rparr> \<in> set rs)
       \<and> files (snd (upgrade x opts w)) (entryName e) = files w (entryName e)
       \<and> entriesNamed (entryName e) (snd (upgrade x opts w)) = [e]"
proof -
  let ?w0 = "ora_start ''Merging overrides'' w"
  note one = entriesNamed_unique [OF uniq entry]
  have engine: "entryOutcome (targetVersion x opts) (allowConflicts opts) e merged True w
           (apiUpgradeOverrides x opts listener w)"
    by (rule apiUpgradeOverrides_entry [OF keeps uniq entry stale conflict])
  have "entryOutcome (targetVersion x opts) (allowConflicts opts) e merged True ?w0
           (apiUpgradeOverrides x opts progressListener ?w0)"
    using uniq entry stale conflict
    by (intro apiUpgradeOverrides_entry [OF keepsStore_progressListener]) (simp_all add: ora_start_store ora_start_mergeEntry)
  then have cli: "files (snd (upgrade x opts w)) (entryName e) = files w (entryName e)"
    "entriesNamed (entryName e) (snd (upgrade x opts w)) = [e]"
    using gate one by (simp_all add: entryOutcome_def entriesNamed_def upgrade_store ora_start_store)
  from engine gate one cli show ?thesis
    by (simp add: entryOutcome_def)
qed

text \<open>
  C9. Without a conflicts flag on the command line the options the upgrade handler
  passes on have allowConflicts true; the command is the upgrade function on these
  options; and when it returns normally, an out-of-date entry whose merge reports
  conflicts has the merged content, conflict markers included, as its override file and
  records the target version.
\<close>

theorem upgrade_conflicts_default:
  "(argConflicts argv = None \<longrightarrow> allowConflicts (upgradeOptions argv) = True)
   \<and> runCommand x (Upgrade argv) w = upgrade x (upgradeOptions argv) w
   \<and> (argConflicts argv = None \<and> distinct (map entryName (manifest w)) \<and> e \<in> set (manifest w)
        \<and> outOfDate x (targetVersion x (upgradeOptions argv)) e
        \<and> mergeEntry x (targetVersion x (upgradeOptions argv)) w e = Some (merged, True)
        \<and> fst (runCommand x (Upgrade argv) w) = Inr () \<longrightarrow>
        files (snd (runCommand x (Upgrade argv) w)) (entryName e) = Some merged
      \<and> entriesNamed (entryName e) (snd (runCommand x (Upgrade argv) w))
          = [e\<lparr>baseVersion := Some (targetVersion x (upgradeOptions argv))\<rparr>])"
proof -
  let ?opts = "upgradeOptions argv"
  let ?v = "targetVersion x ?opts"
  let ?w0 = "ora_start ''Merging overrides'' w"
  have allow: "allowConflicts ?opts" if "argConflicts argv = None"
    using that by (simp add: upgradeOptions_def conflictsOption_def)
  have written: "files (snd (upgrade x ?opts w)) (entryName e) = Some merged
      \<and> entriesNamed (entryName e) (snd (upgrade x ?opts w)) = [e\<lparr>baseVersion := Some ?v\<rparr>]"
    if none: "argConflicts argv = None"
      and uniq: "distinct (map entryName (manifest w))" and entry: "e \<in> set (manifest w)"
      and stale: "outOfDate x ?v e" and conflict: "mergeEntry x ?v w e = Some (merged, True)"
      and ok: "fst (upgrade x ?opts w) = Inr ()"
  proof -
    have "entryOutcome ?v (allowConflicts ?opts) e merged True ?w0
           (apiUpgradeOverrides x ?opts progressListener ?w0)"
      using uniq entry stale conflict
      by (intro apiUpgradeOverrides_entry [OF keepsStore_progressListener])
         (simp_all add: ora_start_store ora_start_mergeEntry)
    moreover from ok obtain rs where "fst (apiUpgradeOverrides x ?opts progressListener ?w0) = Inr rs"
      unfolding upgrade_store(3) by (auto split: sum.splits)
    ultimately show ?thesis
      using entriesNamed_unique [OF uniq entry] allow [OF none]
      by (simp add: entryOutcome_def entriesNamed_def upgrade_store ora_start_store)
  qed
  show ?thesis
    using allow written by simp
qed

lemma example_facts:
  "distinct (map entryName (manifest exampleWorld))"
  "viewEntry ''0.62.0'' \<in> set (manifest exampleWorld)"
  "entryName (viewEntry ''0.62.0'') = ''View.windows.js''"
  "files exampleWorld ''View.windows.js'' = Some ''foo note''"
  by (simp_all add: exampleWorld_def emptyWorld_def viewEntry_def textEntry_def)

lemma example_stale:
  "outOfDate exampleExternals ''0.63.0'' (viewEntry ''0.62.0'')"
  "\<not> outOfDate exampleExternals ''0.63.0'' textEntry"
  "mergeEntry exampleExternals ''0.63.0'' exampleWorld (viewEntry ''0.62.0'') = Some (conflictText, True)"
  by (simp_all add: outOfDate_def mergeEntry_def exampleExternals_def viewEntry_def textEntry_def
        exampleWorld_def emptyWorld_def conflictText_def)

lemma example_stale_list:
  "filter (outOfDate exampleExternals ''0.63.0'') (manifest exampleWorld) = [viewEntry ''0.62.0'']"
  by (simp add: exampleWorld_def emptyWorld_def example_stale)

lemma example_merge_progress:
  "mergeEntry exampleExternals ''0.63.0'' (progressListener i n exampleWorld) (viewEntry ''0.62.0'')
     = Some (conflictText, True)"
proof -
  have "mergeEntry exampleExternals ''0.63.0'' (progressListener i n exampleWorld) (viewEntry ''0.62.0'')
      = mergeEntry exampleExternals ''0.63.0'' exampleWorld (viewEntry ''0.62.0'')"
    by (rule mergeEntry_files) (simp add: progressListener_def ora_text_def)
  then show ?thesis by (simp only: example_stale(3))
qed

theorem upgrade_conflicts_gated_witness:
  "files (snd (upgrade exampleExternals gatedOpts exampleWorld)) ''View.windows.js'' = Some ''foo note''
   \<and> entriesNamed ''View.windows.js'' (snd (upgrade exampleExternals gatedOpts exampleWorld))
       = [viewEntry ''0.62.0'']
   \<and> fst (apiUpgradeOverrides exampleExternals gatedOpts progressListener exampleWorld)
       = Inr [\<lparr>resultName = ''View.windows.js'', hasConflicts = True\<rparr>]"
proof -
  have v: "targetVersion exampleExternals gatedOpts = ''0.63.0''"
    by (simp add: targetVersion_def gatedOpts_def exampleExternals_def)
  have gate: "\<not> allowConflicts gatedOpts"
    by (simp add: gatedOpts_def)
  have stale: "outOfDate exampleExternals (targetVersion exampleExternals gatedOpts) (viewEntry ''0.62.0'')"
    and conflict: "mergeEntry exampleExternals (targetVersion exampleExternals gatedOpts) exampleWorld
                     (viewEntry ''0.62.0'') = Some (conflictText, True)"
    unfolding v by (rule example_stale)+
  have run: "fst (apiUpgradeOverrides exampleExternals gatedOpts progressListener exampleWorld)
       = Inr [\<lparr>resultName = ''View.windows.js'', hasConflicts = True\<rparr>]"
    unfolding apiUpgradeOverrides_def v Let_def example_stale_list
    by (simp add: upgradeEntries_Cons_fst example_merge_progress gatedOpts_def example_facts(3))
  from upgrade_conflicts_gated [OF keepsStore_progressListener example_facts(1) gate
      example_facts(2) stale conflict] run
  show ?thesis
    by (simp add: example_facts)
qed

lemma example_merge_any:
  "files w' ''View.windows.js'' = Some ''foo note'' \<Longrightarrow>
   mergeEntry exampleExternals ''0.63.0'' w' (viewEntry ''0.62.0'') = Some (conflictText, True)"
proof -
  assume "files w' ''View.windows.js'' = Some ''foo note''"
  then have "mergeEntry exampleExternals ''0.63.0'' w' (viewEntry ''0.62.0'')
      = mergeEntry exampleExternals ''0.63.0'' exampleWorld (viewEntry ''0.62.0'')"
    by (intro mergeEntry_files) (simp add: example_facts)
  then show ?thesis by (simp only: example_stale(3))
qed

theorem upgrade_conflicts_default_witness:
  "allowConflicts (upgradeOptions defaultArgv) = True
   \<and> fst (runCommand exampleExternals (Upgrade defaultArgv) exampleWorld) = Inr ()
   \<and> files (snd (runCommand exampleExternals (Upgrade defaultArgv) exampleWorld)) ''View.windows.js''
       = Some conflictText
   \<and> entriesNamed ''View.windows.js'' (snd (runCommand exampleExternals (Upgrade defaultArgv) exampleWorld))
       = [viewEntry ''0.63.0'']"
proof -
  let ?opts = "upgradeOptions defaultArgv"
  let ?w0 = "ora_start ''Merging overrides'' exampleWorld"
  have none: "argConflicts defaultArgv = None"
    by (simp add: defaultArgv_def)
  have v: "targetVersion exampleExternals ?opts = ''0.63.0''"
    by (simp add: targetVersion_def upgradeOptions_def defaultArgv_def exampleExternals_def)
  have stale: "outOfDate exampleExternals (targetVersion exampleExternals ?opts) (viewEntry ''0.62.0'')"
    and conflict: "mergeEntry exampleExternals (targetVersion exampleExternals ?opts) exampleWorld
                     (viewEntry ''0.62.0'') = Some (conflictText, True)"
    unfolding v by (rule example_stale)+
  have "files (progressListener i n ?w0) ''View.windows.js'' = Some ''foo note''" for i n
    by (simp add: progressListener_def ora_text_def ora_start_store example_facts)
  note m = example_merge_any [OF this]
  have "fst (apiUpgradeOverrides exampleExternals ?opts progressListener ?w0)
      = Inr [\<lparr>resultName = ''View.windows.js'', hasConflicts = True\<rparr>]"
    unfolding apiUpgradeOverrides_def v Let_def ora_start_store example_stale_list
    by (simp add: upgradeEntries_Cons_fst m example_facts(3))
  then have ok: "fst (runCommand exampleExternals (Upgrade defaultArgv) exampleWorld) = Inr ()"
    by (simp add: upgrade_store(3))
  have upd: "(viewEntry ''0.62.0'')\<lparr>baseVersion := Some ''0.63.0''\<rparr> = viewEntry ''0.63.0''"
    by (simp add: viewEntry_def)
  from upgrade_conflicts_default [of defaultArgv exampleExternals exampleWorld "viewEntry ''0.62.0''" conflictText]
    none example_facts(1,2) stale conflict ok
  show ?thesis
    by (simp add: v upd example_facts(3))
qed

subsection \<open>The cross-process lock and doMain\<close>

lemma otherCall_held:
  "lockHolder w = Some q \<Longrightarrow>
   (\<exists>cs. lockCalls (otherCall c w) = lockCalls w @ cs
      \<and> (lockHolder (otherCall c w) = Some q \<or> (lockHolder (otherCall c w) = None \<and> Unlock q \<in> set cs)))"
  by (cases c) (auto simp: tryLock_def unlock_def)

lemma lock_returns:
  "lock p others w = Some w' \<Longrightarrow>
   lockHolder w' = Some p
   \<and> (\<exists>cs. lockCalls w' = lockCalls w @ cs @ [Lock p]
          \<and> set cs \<subseteq> set others
          \<and> (\<forall>q. lockHolder w = Some q \<longrightarrow> Unlock q \<in> set cs))"
proof (induction others arbitrary: w)
  case Nil
  then show ?case by (auto split: if_splits)
next
  case (Cons c rest)
  show ?case
  proof (cases "lockHolder w")
    case None
    with Cons.prems show ?thesis by auto
  next
    case (Some q)
    with Cons.prems have run: "lock p rest (otherCall c w) = Some w'" by simp
    from Cons.IH [OF run] obtain cs where
      h: "lockHolder w' = Some p"
      and cs: "lockCalls w' = lockCalls (otherCall c w) @ cs @ [Lock p]"
      and sub: "set cs \<subseteq> set rest"
      and rel: "\<forall>q. lockHolder (otherCall c w) = Some q \<longrightarrow> Unlock q \<in> set cs"
      by blast
    have step: "\<exists>ds. lockCalls (otherCall c w) = lockCalls w @ ds \<and> set ds \<subseteq> {c}
        \<and> (lockHolder (otherCall c w) = Some q \<or> Unlock q \<in> set ds)"
      using Some by (cases c) (auto simp: tryLock_def unlock_def)
    then obtain ds where ds: "lockCalls (otherCall c w) = lockCalls w @ ds" "set ds \<subseteq> {c}"
      "lockHolder (otherCall c w) = Some q \<or> Unlock q \<in> set ds" by blast
    have "lockCalls w' = lockCalls w @ (ds @ cs) @ [Lock p]"
      using cs ds(1) by simp
    moreover have "set (ds @ cs) \<subseteq> set (c # rest)"
      using ds(2) sub by auto
    moreover have "Unlock q \<in> set (ds @ cs)"
      using ds(3) rel by auto
    ultimately have "lockCalls w' = lockCalls w @ (ds @ cs) @ [Lock p]
          \<and> set (ds @ cs) \<subseteq> set (c # rest)
          \<and> (\<forall>q. lockHolder w = Some q \<longrightarrow> Unlock q \<in> set (ds @ cs))"
      using Some by simp
    then have "\<exists>cs. lockCalls w' = lockCalls w @ cs @ [Lock p]
          \<and> set cs \<subseteq> set (c # rest)
          \<and> (\<forall>q. lockHolder w = Some q \<longrightarrow> Unlock q \<in> set cs)"
      by (rule exI)
    with h show ?thesis by (rule conjI)
  qed
qed

lemma doMain_free:
  "lockHolder w = None \<Longrightarrow>
   doMain p others fn w
     = (case fn (w\<lparr>lockHolder := Some p, lockCalls := lockCalls w @ [TryLock p]\<rparr>) of
          None \<Rightarrow> None
        | Some (Inl failed, w3) \<Rightarrow> Some (Inl failed, w3)
        | Some (Inr u, w3) \<Rightarrow> Some (Inr (), unlock p w3))"
  by (simp add: doMain_def tryLock_def)

lemma doMain_held:
  "lockHolder w = Some q \<Longrightarrow>
   doMain p others fn w
     = (case lock p others
               (ora_start ''Waiting for other instances of the override CLI to finish''
                  (w\<lparr>lockCalls := lockCalls w @ [TryLock p]\<rparr>)) of
          None \<Rightarrow> None
        | Some w2 \<Rightarrow>
            (case fn (ora_stop w2) of
               None \<Rightarrow> None
             | Some (Inl failed, w3) \<Rightarrow> Some (Inl failed, w3)
             | Some (Inr u, w3) \<Rightarrow> Some (Inr (), unlock p w3)))"
  by (simp add: doMain_def tryLock_def split: option.splits)

lemma doMain_calls:
  assumes keeps: "keepsLock fn" and run: "doMain p others fn w = Some (r, w')"
  shows "\<exists>cs. newLockCalls w w'
           = TryLock p # (if lockHolder w = None then [] else cs @ [Lock p])
             @ (if r = Inr () then [Unlock p] else [])"
proof (cases "lockHolder w")
  case None
  let ?w1 = "w\<lparr>lockHolder := Some p, lockCalls := lockCalls w @ [TryLock p]\<rparr>"
  from run None obtain r3 w3 where fn: "fn ?w1 = Some (r3, w3)"
    by (cases "fn ?w1") (auto simp: doMain_free)
  with keeps have "lockCalls w3 = lockCalls ?w1"
    unfolding keepsLock_def by blast
  then have w3: "lockCalls w3 = lockCalls w @ [TryLock p]"
    by simp
  from run None fn have "r = r3 \<and> w' = (if r3 = Inr () then unlock p w3 else w3)"
    by (auto simp: doMain_free split: sum.splits)
  with w3 None show ?thesis
    by (auto simp: newLockCalls_def unlock_def)
next
  case (Some q)
  let ?w1 = "ora_start ''Waiting for other instances of the override CLI to finish''
                  (w\<lparr>lockCalls := lockCalls w @ [TryLock p]\<rparr>)"
  from run Some obtain w2 where w2: "lock p others ?w1 = Some w2"
    by (auto simp: doMain_held split: option.splits)
  from lock_returns [OF w2] obtain cs where cs: "lockCalls w2 = lockCalls ?w1 @ cs @ [Lock p]"
    by blast
  then have c2: "lockCalls (ora_stop w2) = lockCalls w @ TryLock p # cs @ [Lock p]"
    by (simp add: ora_start_def ora_stop_def)
  from run Some w2 obtain r3 w3 where fn: "fn (ora_stop w2) = Some (r3, w3)"
    by (cases "fn (ora_stop w2)") (auto simp: doMain_held)
  with keeps have "lockCalls w3 = lockCalls (ora_stop w2)"
    unfolding keepsLock_def by blast
  with c2 have w3: "lockCalls w3 = lockCalls w @ TryLock p # cs @ [Lock p]"
    by simp
  from run Some w2 fn have "r = r3 \<and> w' = (if r3 = Inr () then unlock p w3 else w3)"
    by (auto simp: doMain_held split: sum.splits)
  with w3 Some have "newLockCalls w w'
           = TryLock p # (if lockHolder w = None then [] else cs @ [Lock p])
             @ (if r = Inr () then [Unlock p] else [])"
    by (auto simp: newLockCalls_def unlock_def)
  then show ?thesis by (rule exI)
qed

text \<open>
  C8. While a process \<open>q\<close> holds the lock, tryLock of a process \<open>p\<close> returns
  false at once and leaves \<open>q\<close> the holder. A blocking lock of \<open>p\<close> that started
  while \<open>q\<close> held the lock and has returned made \<open>p\<close> the holder, and the calls
  recorded before its return include the unlock of \<open>q\<close>. doMain records tryLock
  first, and records the blocking lock exactly when tryLock returned false (the calls of
  the other processes made during the wait stand between the two).
\<close>

theorem lock_contention:
  "(lockHolder w = Some q \<longrightarrow>
      fst (tryLock p w) = False \<and> lockHolder (snd (tryLock p w)) = Some q)
   \<and> (\<forall>w'. lockHolder w = Some q \<and> lock p others w = Some w' \<longrightarrow>
         lockHolder w' = Some p
       \<and> (\<exists>cs. newLockCalls w w' = cs @ [Lock p] \<and> Unlock q \<in> set cs))
   \<and> (\<forall>r w'. keepsLock fn \<and> doMain p others fn w = Some (r, w') \<longrightarrow>
         (\<exists>cs. newLockCalls w w'
            = TryLock p # (if fst (tryLock p w) then [] else cs @ [Lock p])
              @ (if r = Inr () then [Unlock p] else [])))"
proof (intro conjI allI impI)
  assume "lockHolder w = Some q"
  then show "fst (tryLock p w) = False" and "lockHolder (snd (tryLock p w)) = Some q"
    by (simp_all add: tryLock_def)
next
  fix w' assume a: "lockHolder w = Some q \<and> lock p others w = Some w'"
  then have run: "lock p others w = Some w'" and held: "lockHolder w = Some q" by blast+
  from lock_returns [OF run] held show "lockHolder w' = Some p"
    and "\<exists>cs. newLockCalls w w' = cs @ [Lock p] \<and> Unlock q \<in> set cs"
    by (auto simp: newLockCalls_def)
next
  fix r w' assume "keepsLock fn \<and> doMain p others fn w = Some (r, w')"
  then have k: "keepsLock fn" and d: "doMain p others fn w = Some (r, w')" by blast+
  have "\<exists>cs. newLockCalls w w'
           = TryLock p # (if lockHolder w = None then [] else cs @ [Lock p])
             @ (if r = Inr () then [Unlock p] else [])"
    by (rule doMain_calls [OF k d])
  moreover have "fst (tryLock p w) = (lockHolder w = None)"
    by (simp add: tryLock_def)
  ultimately show "\<exists>cs. newLockCalls w w'
            = TryLock p # (if fst (tryLock p w) then [] else cs @ [Lock p])
              @ (if r = Inr () then [Unlock p] else [])"
    by simp
qed

lemma validateManifest_keepsLock: "keepsLock (\<lambda>w. Some (validateManifest x opts w))"
proof -
  have "lockHolder (snd (validateManifest x opts w)) = lockHolder w
      \<and> lockCalls (snd (validateManifest x opts w)) = lockCalls w" for w
  proof (cases "apiValidateManifest x opts")
    case (Inl failed)
    then show ?thesis
      by (cases failed) (simp_all add: validateManifest_def spinnerGuard_def ora_start_def ora_fail_def)
  next
    case (Inr errs)
    then show ?thesis
      by (cases "errs = []")
         (simp_all add: validateManifest_def spinnerGuard_def printValidationErrors_eq
            ora_start_def ora_fail_def ora_succeed_def)
  qed
  then have "validateManifest x opts w = (r, w') \<Longrightarrow>
      lockHolder w' = lockHolder w \<and> lockCalls w' = lockCalls w" for w r w'
    by (metis snd_conv)
  then show ?thesis by (simp add: keepsLock_def)
qed

lemma cleanValidate_run:
  "runCommand exampleExternals cleanValidate w
     = (Inr (), ora_succeed (ora_start ''Validating overrides'' w))"
proof -
  have "apiValidateManifest exampleExternals
          \<lparr>manifestPath = Some ''clean/overrides.json'', reactNativeVersion = None\<rparr> = Inr []"
    by (simp add: exampleExternals_def)
  then show ?thesis
    by (simp add: cleanValidate_def validateManifest_empty)
qed

lemma missingValidate_run:
  "runCommand exampleExternals missingValidate w
     = (Inl (Throw ''ManifestNotFound''), ora_fail (ora_start ''Validating overrides'' w))"
proof -
  have "apiValidateManifest exampleExternals
          \<lparr>manifestPath = Some ''missing/overrides.json'', reactNativeVersion = None\<rparr>
      = Inl (Throw ''ManifestNotFound'')"
    by (simp add: exampleExternals_def)
  then show ?thesis
    by (simp add: missingValidate_def validateManifest_def spinnerGuard_def ora_start_def)
qed

lemma removeAbsent_run:
  assumes "manifest w = manifest exampleWorld"
  shows "runCommand exampleExternals (Remove ''Image.windows.js'') w
     = (Inl (Exit 1),
        console_error red ''Could not remove override. Is it part of the manifest?'' w)"
proof -
  have "\<not> hasOverride ''Image.windows.js'' (manifest w)"
    using assms by (simp add: exampleWorld_def hasOverride_def viewEntry_def textEntry_def)
  then show ?thesis
    by (simp add: removeOverride_def exampleExternals_def apiRemoveOverride_absent)
qed

lemma held_wait:
  "lock 1 [TryLock 3, Unlock 2]
      (ora_start ''Waiting for other instances of the override CLI to finish''
         (heldWorld\<lparr>lockCalls := lockCalls heldWorld @ [TryLock 1]\<rparr>))
     = Some (heldWorld\<lparr>lockHolder := Some 1,
               lockCalls := [TryLock 1, TryLock 3, Unlock 2, Lock 1],
               spinner := \<lparr>spinnerText = ''Waiting for other instances of the override CLI to finish'',
                            isSpinning = True\<rparr>\<rparr>)"
  by (simp add: heldWorld_def emptyWorld_def ora_start_def tryLock_def unlock_def)

lemma held_run:
  "doMain 1 [TryLock 3, Unlock 2] (\<lambda>w. Some (runCommand exampleExternals cleanValidate w)) heldWorld
     = Some (Inr (),
         heldWorld\<lparr>lockHolder := None,
               lockCalls := [TryLock 1, TryLock 3, Unlock 2, Lock 1, Unlock 1],
               spinner := \<lparr>spinnerText = ''Validating overrides'', isSpinning = False\<rparr>,
               stdio := [OraSucceed ''Validating overrides'']\<rparr>)"
proof -
  have held: "lockHolder heldWorld = Some 2"
    by (simp add: heldWorld_def)
  show ?thesis
    unfolding doMain_held [OF held] held_wait
    by (simp add: cleanValidate_run heldWorld_def emptyWorld_def ora_start_def ora_stop_def
          ora_succeed_def unlock_def)
qed

lemma free_run:
  "doMain 1 [] (\<lambda>w. Some (runCommand exampleExternals cleanValidate w)) emptyWorld
     = Some (Inr (),
         emptyWorld\<lparr>lockHolder := None,
               lockCalls := [TryLock 1, Unlock 1],
               spinner := \<lparr>spinnerText = ''Validating overrides'', isSpinning = False\<rparr>,
               stdio := [OraSucceed ''Validating overrides'']\<rparr>)"
proof -
  have free: "lockHolder emptyWorld = None"
    by (simp add: emptyWorld_def)
  show ?thesis
    unfolding doMain_free [OF free]
    by (simp add: cleanValidate_run emptyWorld_def ora_start_def ora_succeed_def unlock_def)
qed

theorem lock_contention_witness:
  "tryLock 1 heldWorld = (False, heldWorld\<lparr>lockCalls := [TryLock 1]\<rparr>)
   \<and> lock 1 [TryLock 3] heldWorld = None
   \<and> map_option (lockCalls \<circ> snd)
        (doMain 1 [TryLock 3, Unlock 2]
           (\<lambda>w. Some (runCommand exampleExternals cleanValidate w)) heldWorld)
       = Some [TryLock 1, TryLock 3, Unlock 2, Lock 1, Unlock 1]
   \<and> map_option (lockCalls \<circ> snd)
        (doMain 1 [] (\<lambda>w. Some (runCommand exampleExternals cleanValidate w)) emptyWorld)
       = Some [TryLock 1, Unlock 1]"
proof -
  let ?fn = "\<lambda>w. Some (runCommand exampleExternals cleanValidate w)"
  let ?o = "\<lparr>manifestPath = Some ''clean/overrides.json'', reactNativeVersion = None\<rparr>"
  let ?w1 = "heldWorld\<lparr>lockHolder := None,
               lockCalls := [TryLock 1, TryLock 3, Unlock 2, Lock 1, Unlock 1],
               spinner := \<lparr>spinnerText = ''Validating overrides'', isSpinning = False\<rparr>,
               stdio := [OraSucceed ''Validating overrides'']\<rparr>"
  have held: "lockHolder heldWorld = Some 2" and calls: "lockCalls heldWorld = []"
    by (simp_all add: heldWorld_def emptyWorld_def)
  have "?fn = (\<lambda>w. Some (validateManifest exampleExternals ?o w))"
    by (rule ext) (simp add: cleanValidate_def)
  then have keeps: "keepsLock ?fn"
    by (simp only: validateManifest_keepsLock)
  have run: "doMain 1 [TryLock 3, Unlock 2] ?fn heldWorld = Some (Inr (), ?w1)"
    by (rule held_run)
  from lock_contention [of heldWorld 2 1 "[TryLock 3, Unlock 2]" ?fn] held
  have t: "fst (tryLock 1 heldWorld) = False"
    and c: "keepsLock ?fn \<and> doMain 1 [TryLock 3, Unlock 2] ?fn heldWorld = Some (Inr (), ?w1) \<longrightarrow>
         (\<exists>cs. newLockCalls heldWorld ?w1
            = TryLock 1 # (if fst (tryLock 1 heldWorld) then [] else cs @ [Lock 1])
              @ (if (Inr () :: unit result) = Inr () then [Unlock 1] else []))"
    by blast+
  from c keeps run t obtain cs where "newLockCalls heldWorld ?w1 = TryLock 1 # cs @ [Lock 1, Unlock 1]"
    by auto
  then have "cs = [TryLock 3, Unlock 2]"
    by (simp add: newLockCalls_def calls)
  have t': "tryLock 1 heldWorld = (False, heldWorld\<lparr>lockCalls := [TryLock 1]\<rparr>)"
    using t by (simp add: tryLock_def held calls)
  have l: "lock 1 [TryLock 3] heldWorld = None"
    by (simp add: held tryLock_def)
  show ?thesis
    unfolding held_run free_run using t' l by (simp del: One_nat_def lock.simps)
qed

text \<open>
  The function that Cli.ts hands to doMain settles only through \<open>onFinishCommand(resolve)\<close>:
  a handler that returns normally resolves it, a handler that calls \<open>process.exit\<close>
  ends the process, and a handler that throws is left to the failure handling of yargs.
  Hence no run of the program leaves doMain by a throw.
\<close>

lemma yargsCommand_returns:
  "runCommand x cmd w = (Inr u, w') \<Longrightarrow> yargsCommand x cmd w = Some (Inr (), w')"
  by (simp add: yargsCommand_def)

lemma yargsCommand_exits:
  "runCommand x cmd w = (Inl (Exit n), w') \<Longrightarrow> yargsCommand x cmd w = Some (Inl (Exit n), w')"
  by (simp add: yargsCommand_def)

lemma yargsCommand_never_throws: "yargsCommand x cmd w \<noteq> Some (Inl (Throw ex), w')"
  by (auto simp: yargsCommand_def split: prod.splits sum.splits failure.splits option.splits)

lemma main_never_throws: "main x p others cmd w \<noteq> Some (Inl (Throw ex), w')"
proof
  assume run: "main x p others cmd w = Some (Inl (Throw ex), w')"
  have "\<exists>w2. yargsCommand x cmd w2 = Some (Inl (Throw ex), w')"
  proof (cases "lockHolder w")
    case None
    with run show ?thesis
      unfolding main_def doMain_free [OF None]
      by (auto split: option.splits prod.splits sum.splits)
  next
    case (Some q)
    with run show ?thesis
      unfolding main_def doMain_held [OF Some]
      by (auto split: option.splits prod.splits sum.splits)
  qed
  then show False by (simp add: yargsCommand_never_throws)
qed

text \<open>
  C1. The lock is not released on every exit path. doMain, called with the lock free on a
  function that throws (the validate command on a manifest that is not found), passes the
  throw on with process 1 still the holder and tryLock the only call recorded. In the
  program that same command reaches doMain through yargs, whose failure handling prints
  the error and exits with code 1, and a remove command for an override that the manifest
  does not list exits with code 1 from its handler; after both runs process 1 still holds
  the lock. A validate command that returns normally releases it.
\<close>

theorem doMain_lock_not_released:
  "map_option fst
     (doMain 1 [] (\<lambda>w. Some (runCommand exampleExternals missingValidate w)) emptyWorld)
     = Some (Inl (Throw ''ManifestNotFound''))
   \<and> map_option (lockHolder \<circ> snd)
       (doMain 1 [] (\<lambda>w. Some (runCommand exampleExternals missingValidate w)) emptyWorld)
     = Some (Some 1)
   \<and> map_option (lockCalls \<circ> snd)
       (doMain 1 [] (\<lambda>w. Some (runCommand exampleExternals missingValidate w)) emptyWorld)
     = Some [TryLock 1]
   \<and> map_option fst (main exampleExternals 1 [] missingValidate emptyWorld)
     = Some (Inl (Exit 1))
   \<and> map_option (lockHolder \<circ> snd) (main exampleExternals 1 [] missingValidate emptyWorld)
     = Some (Some 1)
   \<and> map_option fst (main exampleExternals 1 [] (Remove ''Image.windows.js'') exampleWorld)
     = Some (Inl (Exit 1))
   \<and> map_option (lockHolder \<circ> snd) (main exampleExternals 1 [] (Remove ''Image.windows.js'') exampleWorld)
     = Some (Some 1)
   \<and> map_option (lockHolder \<circ> snd) (main exampleExternals 1 [] cleanValidate emptyWorld)
     = Some None"
proof -
  let ?e1 = "emptyWorld\<lparr>lockHolder := Some 1, lockCalls := lockCalls emptyWorld @ [TryLock 1]\<rparr>"
  let ?x1 = "exampleWorld\<lparr>lockHolder := Some 1, lockCalls := lockCalls exampleWorld @ [TryLock 1]\<rparr>"
  have free: "lockHolder emptyWorld = None" "lockHolder exampleWorld = None"
    and calls: "lockCalls emptyWorld = []"
    by (simp_all add: emptyWorld_def exampleWorld_def)
  have yf: "yargsFail exampleExternals ex w = Some (1, console_error plain ex w)" for ex w
    by (simp add: exampleExternals_def)
  have d1: "doMain 1 [] (\<lambda>w. Some (runCommand exampleExternals missingValidate w)) emptyWorld
      = Some (Inl (Throw ''ManifestNotFound''), ora_fail (ora_start ''Validating overrides'' ?e1))"
    by (simp add: doMain_free [OF free(1)] missingValidate_run del: One_nat_def)
  have y1: "yargsCommand exampleExternals missingValidate ?e1
      = Some (Inl (Exit 1),
          console_error plain ''ManifestNotFound'' (ora_fail (ora_start ''Validating overrides'' ?e1)))"
    by (simp add: yargsCommand_def missingValidate_run yf del: One_nat_def)
  have m1: "main exampleExternals 1 [] missingValidate emptyWorld
      = Some (Inl (Exit 1),
          console_error plain ''ManifestNotFound'' (ora_fail (ora_start ''Validating overrides'' ?e1)))"
    by (simp add: main_def doMain_free [OF free(1)] y1 del: One_nat_def)
  have "manifest ?x1 = manifest exampleWorld" by simp
  from removeAbsent_run [OF this]
  have "yargsCommand exampleExternals (Remove ''Image.windows.js'') ?x1
      = Some (Inl (Exit 1),
          console_error red ''Could not remove override. Is it part of the manifest?'' ?x1)"
    by (rule yargsCommand_exits)
  then have m2: "main exampleExternals 1 [] (Remove ''Image.windows.js'') exampleWorld
      = Some (Inl (Exit 1),
          console_error red ''Could not remove override. Is it part of the manifest?'' ?x1)"
    by (simp add: main_def doMain_free [OF free(2)] del: One_nat_def)
  have "yargsCommand exampleExternals cleanValidate ?e1
      = Some (Inr (), ora_succeed (ora_start ''Validating overrides'' ?e1))"
    by (rule yargsCommand_returns) (rule cleanValidate_run)
  then have m3: "main exampleExternals 1 [] cleanValidate emptyWorld
      = Some (Inr (), unlock 1 (ora_succeed (ora_start ''Validating overrides'' ?e1)))"
    by (simp add: main_def doMain_free [OF free(1)] del: One_nat_def)
  show ?thesis
    unfolding d1 m1 m2 m3
    by (simp add: ora_fail_def ora_start_def ora_succeed_def unlock_def console_error_def calls
          del: One_nat_def)
qed

end
